theory Spec2Isabelle
  imports Main "HOL-Library.Sublist" "HOL-Library.Word"
begin

section \<open>Strings of the runtime\<close>

text \<open>
  A JavaScript string is modelled as an Isabelle \<open>string\<close>: one character stands for the
  UTF-16 code unit with the same code, so the model covers the strings whose code units are
  below 256. The functions of this section are the methods of \<open>String.prototype\<close> that
  the server calls.
\<close>

text \<open>
  \<open>s.includes(sub)\<close>: some position of \<open>s\<close> starts an occurrence of \<open>sub\<close>.
\<close>

fun str_includes :: "string \<Rightarrow> string \<Rightarrow> bool" where
  "str_includes [] sub = (sub = [])"
| "str_includes (c # cs) sub = (prefix sub (c # cs) \<or> str_includes cs sub)"

text \<open>
  \<open>s.indexOf(sub) !== -1\<close> is the same test; the source uses both spellings.
\<close>

text \<open>
  \<open>s.split(sep)\<close> for a string separator, without a limit. The scan goes left to right;
  at an occurrence of the separator the piece read so far is closed and the scan resumes
  behind the occurrence, so occurrences do not overlap. The piece after the last
  occurrence is always emitted, also when it is empty. An empty separator splits into
  single code units.
\<close>

fun split_from :: "string \<Rightarrow> string \<Rightarrow> string \<Rightarrow> string list" where
  "split_from sep cur [] = [cur]"
| "split_from sep cur (c # cs) =
     (if sep \<noteq> [] \<and> prefix sep (c # cs)
      then cur # split_from sep [] (drop (length sep) (c # cs))
      else split_from sep (cur @ [c]) cs)"

definition split :: "string \<Rightarrow> string \<Rightarrow> string list" where
  "split s sep = (if sep = [] then map (\<lambda>c. [c]) s else split_from sep [] s)"

text \<open>
  \<open>xs[i]\<close> on an array: \<open>undefined\<close> (here \<open>None\<close>) when the index is out of range.
\<close>

definition at_index :: "'a list \<Rightarrow> nat \<Rightarrow> 'a option" where
  "at_index xs i = (if i < length xs then Some (xs ! i) else None)"

section \<open>Route matching\<close>

text \<open>
  \<open>canHandleRoute\<close> and \<open>routeParams\<close> read \<open>reqToURL(req).pathname\<close>, a function of the
  request alone; the model takes that path name as its first argument.
\<close>

definition canHandleRoute :: "string \<Rightarrow> string \<Rightarrow> bool" where
  "canHandleRoute reqUrl route =
     (let requestURL = split reqUrl ''/'';
          routeURL = split route ''/'';
          matches = filter (\<lambda>b. b)
            (map (\<lambda>(index, value).
                    if str_includes value '':'' then True
                    else Some value = at_index requestURL index)
                 (enumerate 0 routeURL))
      in length matches = length routeURL \<and> length matches = length requestURL)"

text \<open>
  \<open>routeParams\<close>: the reduction over the segments of the route, started from the empty
  object. A key is stored only when \<open>keyname\<close> is truthy, that is a non-empty string; the
  stored value is \<open>requestURL[i]\<close>, which is \<open>undefined\<close> (\<open>None\<close>) behind the end of the
  request's segments.
\<close>

definition keyname_of :: "string \<Rightarrow> string option" where
  "keyname_of cur = (if str_includes cur '':'' then at_index (split cur '':'') 1 else None)"

definition routeParams_step ::
  "string list \<Rightarrow> nat \<times> string \<Rightarrow> (string \<rightharpoonup> string option) \<Rightarrow> (string \<rightharpoonup> string option)" where
  "routeParams_step requestURL = (\<lambda>(i, cur) acc.
     (case keyname_of cur of
        Some keyname \<Rightarrow> if keyname \<noteq> [] then acc(keyname \<mapsto> at_index requestURL i) else acc
      | None \<Rightarrow> acc))"

definition routeParams :: "string \<Rightarrow> string \<Rightarrow> (string \<rightharpoonup> string option)" where
  "routeParams reqUrl route =
     (let requestURL = split reqUrl ''/'';
          routeURL = split route ''/''
      in fold (routeParams_step requestURL) (enumerate 0 routeURL) Map.empty)"

text \<open>
  Two descriptions used to state what \<open>routeParams\<close> computes. \<open>key_text\<close> is the part
  of a segment between its first colon and its next colon (or its end); \<open>key_indices\<close>
  lists, in ascending order, the indices of the route's segments that have a colon and
  whose \<open>key_text\<close> is the non-empty name \<open>k\<close>.
\<close>

definition key_text :: "string \<Rightarrow> string" where
  "key_text seg =
     takeWhile (\<lambda>c. c \<noteq> CHR '':'') (tl (dropWhile (\<lambda>c. c \<noteq> CHR '':'') seg))"

definition key_indices :: "string list \<Rightarrow> string \<Rightarrow> nat list" where
  "key_indices routeURL k =
     filter (\<lambda>i. CHR '':'' \<in> set (routeURL ! i) \<and> key_text (routeURL ! i) = k \<and> k \<noteq> [])
       [0..<length routeURL]"

section \<open>Template fragments\<close>

text \<open>
  \<open>generatePreContent\<close> and \<open>generatePostContent\<close>. The result \<open>None\<close> stands for both
  \<open>null\<close> and \<open>undefined\<close>: the callers only test the result for truthiness.
\<close>

definition generatePreContent :: "string \<Rightarrow> bool \<Rightarrow> string option" where
  "generatePreContent template answerWithPartialContent =
     (if answerWithPartialContent then None
      else if str_includes template ''<nattramn-router>''
           then at_index (split template ''<nattramn-router>'') 0
           else Some template)"

definition generatePostContent :: "string \<Rightarrow> bool \<Rightarrow> string option" where
  "generatePostContent template answerWithPartialContent =
     (if answerWithPartialContent then None
      else if str_includes template ''</nattramn-router>''
           then at_index (split template ''</nattramn-router>'') 1
           else Some template)"

text \<open>
  The number of positions of \<open>s\<close> at which \<open>sub\<close> occurs, and the content between the
  markers of a template: what follows the first open marker, up to the first close marker
  found there.
\<close>

definition occurrences :: "string \<Rightarrow> string \<Rightarrow> nat" where
  "occurrences sub s = length (filter (\<lambda>i. prefix sub (drop i s)) [0..<Suc (length s)])"

definition inner_content :: "string \<Rightarrow> string" where
  "inner_content template =
     (case at_index (split template ''<nattramn-router>'') 1 of
        None \<Rightarrow> []
      | Some rest \<Rightarrow> (case at_index (split rest ''</nattramn-router>'') 0 of
                       None \<Rightarrow> []
                     | Some inner \<Rightarrow> inner))"

section \<open>Headers, bytes and text of the runtime\<close>

text \<open>
  A \<open>Headers\<close> object is a list of name and value pairs; names are kept in lower case,
  so that \<open>get\<close> and \<open>set\<close> do not distinguish the case of a name, and a name occurs at
  most once. \<open>new Headers(init)\<close> appends the pairs of \<open>init\<close> one by one; \<open>append\<close>
  joins the values of a repeated name with a comma.
\<close>

definition lower_char :: "char \<Rightarrow> char" where
  "lower_char c =
     (case map_of (zip ''ABCDEFGHIJKLMNOPQRSTUVWXYZ'' ''abcdefghijklmnopqrstuvwxyz'') c of
        Some l \<Rightarrow> l
      | None \<Rightarrow> c)"

definition toLowerCase :: "string \<Rightarrow> string" where
  "toLowerCase s = map lower_char s"

type_synonym headers = "(string \<times> string) list"

definition headers_get :: "headers \<Rightarrow> string \<Rightarrow> string option" where
  "headers_get h name = map_of h (toLowerCase name)"

definition headers_set :: "headers \<Rightarrow> string \<Rightarrow> string \<Rightarrow> headers" where
  "headers_set h name v =
     (toLowerCase name, v) # filter (\<lambda>kv. fst kv \<noteq> toLowerCase name) h"

definition headers_append :: "headers \<Rightarrow> string \<Rightarrow> string \<Rightarrow> headers" where
  "headers_append h name v =
     (case headers_get h name of
        None \<Rightarrow> headers_set h name v
      | Some old \<Rightarrow> headers_set h name (old @ '', '' @ v))"

definition new_Headers :: "(string \<times> string) list option \<Rightarrow> headers" where
  "new_Headers init =
     (case init of
        None \<Rightarrow> []
      | Some kvs \<Rightarrow> fold (\<lambda>kv h. headers_append h (fst kv) (snd kv)) kvs [])"

text \<open>
  Truthiness of a value that is a string, \<open>null\<close> or \<open>undefined\<close>: only a non-empty
  string is truthy.
\<close>

definition truthy :: "string option \<Rightarrow> bool" where
  "truthy v = (case v of None \<Rightarrow> False | Some s \<Rightarrow> s \<noteq> [])"

text \<open>
  A \<open>Uint8Array\<close> is a list of bytes. \<open>new TextEncoder().encode(s)\<close> is the UTF-8
  encoding: a code unit below 128 is one byte, one from 128 to 255 is two bytes.
\<close>

type_synonym bytes = "8 word list"

definition utf8_char :: "char \<Rightarrow> bytes" where
  "utf8_char c =
     (let n = (of_char c :: nat)
      in if n < 128 then [of_nat n]
         else [of_nat (192 + n div 64), of_nat (128 + n mod 64)])"

definition TextEncoder_encode :: "string \<Rightarrow> bytes" where
  "TextEncoder_encode s = concat (map utf8_char s)"

text \<open>
  \<open>xs.join(sep)\<close> on an array of strings: an \<open>undefined\<close> element is written as the
  empty string.
\<close>

fun join :: "string option list \<Rightarrow> string \<Rightarrow> string" where
  "join [] sep = []"
| "join [x] sep = (case x of None \<Rightarrow> [] | Some s \<Rightarrow> s)"
| "join (x # y # ys) sep = (case x of None \<Rightarrow> [] | Some s \<Rightarrow> s) @ sep @ join (y # ys) sep"

text \<open>
  \<open>String(n)\<close> for a length: the decimal digits of \<open>n\<close>.
\<close>

fun String_nat :: "nat \<Rightarrow> string" where
  "String_nat n =
     (if n < 10 then [''0123456789'' ! n]
      else String_nat (n div 10) @ [''0123456789'' ! (n mod 10)])"

declare String_nat.simps [simp del]

section \<open>The title pattern\<close>

text \<open>
  \<open>head.match(/<title>(.+)<\/title>/i)\<close>. The letters of the pattern match in either
  case. The group \<open>(.+)\<close> takes at least one code unit, none of them a line terminator,
  and as many as it can: among the ends that are followed by \<open></title>\<close> the last one
  wins. The match starts at the leftmost position of \<open>head\<close> where a match exists. The
  result is the text of the group, \<open>None\<close> when there is no match.
\<close>

definition is_line_terminator :: "char \<Rightarrow> bool" where
  "is_line_terminator c = (c = CHR 0x0A \<or> c = CHR 0x0D)"

definition ci_prefix :: "string \<Rightarrow> string \<Rightarrow> bool" where
  "ci_prefix pat s = prefix (toLowerCase pat) (toLowerCase s)"

definition title_at :: "string \<Rightarrow> string option" where
  "title_at s =
     (if ci_prefix ''<title>'' s
      then (let rest = drop 7 s;
                line = takeWhile (\<lambda>c. \<not> is_line_terminator c) rest;
                ks = filter (\<lambda>k. ci_prefix ''</title>'' (drop k rest))
                       (rev [1..<Suc (length line)])
            in case ks of [] \<Rightarrow> None | k # _ \<Rightarrow> Some (take k rest))
      else None)"

fun title_match :: "string \<Rightarrow> string option" where
  "title_match [] = None"
| "title_match (c # cs) =
     (case title_at (c # cs) of Some t \<Rightarrow> Some t | None \<Rightarrow> title_match cs)"

text \<open>
  The shape of a text that the pattern matches from its first character, with the
  group's text \<open>t\<close>: an opening tag in either case, the non-empty text \<open>t\<close> without
  a line terminator, and a closing tag in either case.
\<close>

definition title_shape :: "string \<Rightarrow> string \<Rightarrow> bool" where
  "title_shape s t \<longleftrightarrow>
     (\<exists>a b ss. s = a @ t @ b @ ss \<and> toLowerCase a = ''<title>'' \<and>
        toLowerCase b = ''</title>'' \<and> t \<noteq> [] \<and> list_all (\<lambda>c. \<not> is_line_terminator c) t)"

section \<open>JSON, percent encoding and base64\<close>

text \<open>
  \<open>JSON.stringify({ title })\<close> for a string \<open>title\<close>: the quotation mark and the
  backslash are escaped, the control characters are written with their short escapes or
  as \<open>\u00XX\<close> with lower-case digits, every other code unit stands for itself.
\<close>

definition hex_lower :: "nat \<Rightarrow> char" where
  "hex_lower n = ''0123456789abcdef'' ! n"

definition hex_upper :: "nat \<Rightarrow> char" where
  "hex_upper n = ''0123456789ABCDEF'' ! n"

definition json_quote_char :: "char \<Rightarrow> string" where
  "json_quote_char c =
     (let n = (of_char c :: nat)
      in if n = 0x22 then [CHR 0x5C, CHR 0x22]
         else if n = 0x5C then [CHR 0x5C, CHR 0x5C]
         else if n = 0x08 then [CHR 0x5C, CHR ''b'']
         else if n = 0x0C then [CHR 0x5C, CHR ''f'']
         else if n = 0x0A then [CHR 0x5C, CHR ''n'']
         else if n = 0x0D then [CHR 0x5C, CHR ''r'']
         else if n = 0x09 then [CHR 0x5C, CHR ''t'']
         else if n < 0x20 then [CHR 0x5C, CHR ''u'', CHR ''0'', CHR ''0'',
                                 hex_lower (n div 16), hex_lower (n mod 16)]
         else [c])"

definition JSON_stringify_title :: "string \<Rightarrow> string" where
  "JSON_stringify_title title =
     [CHR ''{'', CHR 0x22] @ ''title'' @ [CHR 0x22, CHR '':'', CHR 0x22] @
     concat (map json_quote_char title) @ [CHR 0x22, CHR ''}'']"

text \<open>
  \<open>encodeURIComponent\<close> keeps the letters, the digits and \<open>- _ . ! ~ * ' ( )\<close> and
  writes every other code unit as the bytes of its UTF-8 encoding, each as \<open>%XX\<close> with
  upper-case digits.
\<close>

definition uri_unreserved :: "char \<Rightarrow> bool" where
  "uri_unreserved c =
     (c \<in> set (''ABCDEFGHIJKLMNOPQRSTUVWXYZabcdefghijklmnopqrstuvwxyz0123456789-_.!~*()''
               @ [CHR 0x27]))"

definition pct_byte :: "8 word \<Rightarrow> string" where
  "pct_byte b = [CHR ''%'', hex_upper (unat b div 16), hex_upper (unat b mod 16)]"

definition encodeURIComponent_char :: "char \<Rightarrow> string" where
  "encodeURIComponent_char c =
     (if uri_unreserved c then [c] else concat (map pct_byte (utf8_char c)))"

definition encodeURIComponent :: "string \<Rightarrow> string" where
  "encodeURIComponent s = concat (map encodeURIComponent_char s)"

text \<open>
  \<open>unescape\<close> reads \<open>%uXXXX\<close> and \<open>%XX\<close> with hexadecimal digits of either case as
  the code unit of that value and copies everything else. Its result is a list of code
  units, which may exceed 255.
\<close>

definition hex_value :: "char \<Rightarrow> nat option" where
  "hex_value c =
     map_of (zip ''0123456789abcdefABCDEF''
               [0, 1, 2, 3, 4, 5, 6, 7, 8, 9, 10, 11, 12, 13, 14, 15, 10, 11, 12, 13, 14, 15]) c"

definition hex_number :: "string \<Rightarrow> nat option" where
  "hex_number ds =
     fold (\<lambda>d acc. case (acc, hex_value d) of
                      (Some a, Some v) \<Rightarrow> Some (16 * a + v)
                    | _ \<Rightarrow> None) ds (Some 0)"

fun unescape :: "string \<Rightarrow> nat list" where
  "unescape [] = []"
| "unescape (c # cs) =
     (if c = CHR ''%'' \<and> 5 \<le> length cs \<and> hd cs = CHR ''u''
         \<and> hex_number (take 4 (tl cs)) \<noteq> None
      then the (hex_number (take 4 (tl cs))) # unescape (drop 5 cs)
      else if c = CHR ''%'' \<and> 2 \<le> length cs \<and> hex_number (take 2 cs) \<noteq> None
      then the (hex_number (take 2 cs)) # unescape (drop 2 cs)
      else of_char c # unescape cs)"

text \<open>
  \<open>btoa\<close> takes a string of code units below 256, the bytes of a binary string, and
  gives their base64 text with padding; a code unit above 255 makes it throw
  (\<open>None\<close>).
\<close>

definition b64_digit :: "nat \<Rightarrow> char" where
  "b64_digit n =
     ''ABCDEFGHIJKLMNOPQRSTUVWXYZabcdefghijklmnopqrstuvwxyz0123456789+/'' ! n"

fun base64 :: "bytes \<Rightarrow> string" where
  "base64 [] = []"
| "base64 [a] =
     [b64_digit (unat a div 4), b64_digit (unat a mod 4 * 16), CHR ''='', CHR ''='']"
| "base64 [a, b] =
     [b64_digit (unat a div 4), b64_digit (unat a mod 4 * 16 + unat b div 16),
      b64_digit (unat b mod 16 * 4), CHR ''='']"
| "base64 (a # b # c # rest) =
     [b64_digit (unat a div 4), b64_digit (unat a mod 4 * 16 + unat b div 16),
      b64_digit (unat b mod 16 * 4 + unat c div 64), b64_digit (unat c mod 64)]
     @ base64 rest"

definition btoa :: "nat list \<Rightarrow> string option" where
  "btoa units =
     (if list_all (\<lambda>u. u < 256) units then Some (base64 (map of_nat units)) else None)"

text \<open>
  \<open>atob\<close>, the inverse of \<open>btoa\<close>: four digits give three bytes, and the padding
  marks a last group of one or two bytes.
\<close>

definition b64_index :: "char \<Rightarrow> nat option" where
  "b64_index c =
     map_of (zip ''ABCDEFGHIJKLMNOPQRSTUVWXYZabcdefghijklmnopqrstuvwxyz0123456789+/'' [0..<64]) c"

fun base64_decode :: "string \<Rightarrow> bytes option" where
  "base64_decode [] = Some []"
| "base64_decode (a # b # c # d # rest) =
     (case (b64_index a, b64_index b) of
        (Some x, Some y) \<Rightarrow>
          (if c = CHR ''='' \<and> d = CHR ''='' \<and> rest = []
           then Some [of_nat (x * 4 + y div 16)]
           else (case b64_index c of
                   None \<Rightarrow> None
                 | Some z \<Rightarrow>
                     (if d = CHR ''='' \<and> rest = []
                      then Some [of_nat (x * 4 + y div 16), of_nat (y mod 16 * 16 + z div 4)]
                      else (case (b64_index d, base64_decode rest) of
                              (Some w, Some bs) \<Rightarrow>
                                Some (of_nat (x * 4 + y div 16) #
                                      of_nat (y mod 16 * 16 + z div 4) #
                                      of_nat (z mod 4 * 64 + w) # bs)
                            | _ \<Rightarrow> None))))
      | _ \<Rightarrow> None)"
| "base64_decode _ = None"


section \<open>Data of the server\<close>

text \<open>
  The request as the server reads it: \<open>req_url\<close> is the result of \<open>reqToURL(req)\<close>,
  \<open>None\<close> when \<open>new URL\<close> throws; of the URL only the path name and the search
  parameters are read.
\<close>

record URL =
  pathname :: string
  searchParams :: "(string \<times> string) list"

record ServerRequest =
  req_url :: "URL option"
  req_headers :: headers

definition reqToURL :: "ServerRequest \<Rightarrow> URL option" where
  "reqToURL req = req_url req"

definition searchParams_get :: "URL \<Rightarrow> string \<Rightarrow> string option" where
  "searchParams_get u name = map_of (searchParams u) name"

text \<open>
  \<open>PageData\<close>: \<open>pd_head\<close> is \<open>None\<close> when the handler leaves \<open>head\<close> undefined;
  \<open>pd_headers\<close> is the optional \<open>HeadersInit\<close>. A handler either throws, or returns
  nothing usable (a falsy value), or returns page data. Page data whose headers the
  \<open>Headers\<close> constructor rejects end the request as a handler that throws does.
\<close>

record PageData =
  pd_head :: "string option"
  pd_body :: string
  pd_headers :: "(string \<times> string) list option"

datatype handler_result = HandlerThrows | HandlerReturns "PageData option"

record Page =
  route :: string
  template :: string
  handler :: "ServerRequest \<Rightarrow> (string \<rightharpoonup> string option) \<Rightarrow> handler_result"

record RouterConfig =
  pages :: "Page list"

datatype CompressionMethod = Gzip | Brotli | NoCompression

record ServerConfig =
  compression :: "CompressionMethod option"
  cfg_serveStatic :: "string option"

record Config =
  server :: ServerConfig
  router :: RouterConfig

record PartialResponse =
  pr_status :: nat
  pr_body :: bytes
  pr_headers :: headers

text \<open>
  The argument of one call of \<open>req.respond\<close>: each field is given or left out, and the
  body is a string or a byte array. The library sends a status that is left out (or
  zero) as 200.
\<close>

datatype body = BodyText string | BodyBytes bytes

record Response =
  res_status :: "nat option"
  res_body :: "body option"
  res_headers :: "headers option"

definition status_sent :: "Response \<Rightarrow> nat" where
  "status_sent r = (case res_status r of None \<Rightarrow> 200 | Some s \<Rightarrow> if s = 0 then 200 else s)"

datatype error =
    InvalidURL
  | HandlerFailed
  | NoPageData
  | InvalidCharacter
  | InvalidPattern
  | FetchFailed
  | FileNotReadable
  | CouldNotFindFile
  | CouldNotFindRoute

text \<open>
  What the server imports and what it reaches outside the process: \<open>extname\<close> of the
  path library, the file system (\<open>Deno.open\<close> followed by \<open>Deno.readAll\<close>, \<open>None\<close> when
  either throws), the fetch of the client bundle, the regular expression engine on a
  non-empty pattern (\<open>None\<close> when the pattern is not a regular expression, otherwise
  whether it matches somewhere in the subject), and the hash and compression functions.
\<close>

record Env =
  extname :: "string \<Rightarrow> string"
  readFile :: "string \<Rightarrow> bytes option"
  fetch_client :: "bytes option"
  regexp_match :: "string \<Rightarrow> string \<Rightarrow> bool option"
  sha1_hex :: "bytes \<Rightarrow> string"
  gzipEncode :: "bytes \<Rightarrow> bytes"
  brotliEncode :: "bytes \<Rightarrow> bytes"

text \<open>
  \<open>subject.match(pattern)\<close> with a string pattern builds a regular expression from it.
  The expression built from the empty string matches the empty string at the start of
  every subject.
\<close>

definition str_match :: "Env \<Rightarrow> string \<Rightarrow> string \<Rightarrow> bool option" where
  "str_match env subject pattern =
     (if pattern = [] then Some True else regexp_match env pattern subject)"

definition MEDIA_TYPES :: "(string \<times> string) list" where
  "MEDIA_TYPES =
     [(''.md'', ''text/markdown''),
      (''.css'', ''text/css''),
      (''.html'', ''text/html''),
      (''.htm'', ''text/html''),
      (''.json'', ''application/json''),
      (''.map'', ''application/json''),
      (''.txt'', ''text/plain''),
      (''.ts'', ''text/typescript''),
      (''.tsx'', ''text/tsx''),
      (''.js'', ''application/javascript''),
      (''.jsx'', ''text/jsx''),
      (''.gz'', ''application/gzip''),
      (''.webp'', ''image/webp''),
      (''.jpg'', ''image/jpeg''),
      (''.png'', ''image/png''),
      (''.svg'', ''mage/svg+xml'')]"

definition getContentType :: "Env \<Rightarrow> string \<Rightarrow> string option" where
  "getContentType env path = map_of MEDIA_TYPES (extname env path)"

section \<open>Page responses\<close>

text \<open>
  \<open>proxy\<close>. The result is the list of the \<open>req.respond\<close> calls made on the way, in
  order, and the value returned or the error thrown. The two helpers are the two
  conditional blocks of the function: the title update of the headers, and the part of
  \<open>responseBody\<close> that comes from the pre-fragment together with the early
  \<open>req.respond\<close>.
\<close>

definition title_update :: "string option \<Rightarrow> string option \<Rightarrow> headers \<Rightarrow> headers option" where
  "title_update preContent head hs =
     (if \<not> truthy preContent \<and> truthy head
      then (case title_match (case head of None \<Rightarrow> [] | Some h \<Rightarrow> h) of
              None \<Rightarrow> Some hs
            | Some title \<Rightarrow>
                (case btoa (unescape (encodeURIComponent (JSON_stringify_title title))) of
                   None \<Rightarrow> None
                 | Some base64JSON \<Rightarrow> Some (headers_set hs ''X-Header-Updates'' base64JSON)))
      else Some hs)"

definition pre_part :: "string option \<Rightarrow> string option \<Rightarrow> string option list \<times> Response list" where
  "pre_part preContent head =
     (if truthy preContent
      then (if truthy head
            then (let preSplit = split (case preContent of None \<Rightarrow> [] | Some p \<Rightarrow> p) ''<head>'';
                      headMarkup = ''<head>'' @ (case head of None \<Rightarrow> [] | Some h \<Rightarrow> h)
                  in ([at_index preSplit 0, Some headMarkup, at_index preSplit 1], []))
            else ([], [\<lparr>res_status = None,
                        res_body = Some (BodyText (case preContent of None \<Rightarrow> [] | Some p \<Rightarrow> p)),
                        res_headers = None\<rparr>]))
      else ([], []))"

definition proxy :: "ServerRequest \<Rightarrow> URL \<Rightarrow> Page \<Rightarrow> Response list \<times> (error + PartialResponse)" where
  "proxy req u page =
     (let partialContent = (truthy (headers_get (req_headers req) ''x-partial-content'')
                            \<or> truthy (searchParams_get u ''partialContent''))
      in case handler page req (routeParams (pathname u) (route page)) of
           HandlerThrows \<Rightarrow> ([], Inl HandlerFailed)
         | HandlerReturns None \<Rightarrow> ([], Inl NoPageData)
         | HandlerReturns (Some pageData) \<Rightarrow>
             (let preContent = generatePreContent (template page) partialContent;
                  hs = headers_set (new_Headers (pd_headers pageData)) ''Content-Type'' ''text/html''
              in case title_update preContent (pd_head pageData) hs of
                   None \<Rightarrow> ([], Inl InvalidCharacter)
                 | Some hs' \<Rightarrow>
                     (let pp = pre_part preContent (pd_head pageData);
                          mainBody = pd_body pageData;
                          responseBody = fst pp @
                            [Some (if partialContent then mainBody
                                   else ''<nattramn-router>'' @ mainBody @ ''</nattramn-router>'')];
                          postContent = generatePostContent (template page) partialContent;
                          responseBody' = (if truthy postContent then responseBody @ [postContent]
                                           else responseBody);
                          finalBody = TextEncoder_encode (join responseBody' [CHR 0x0A])
                      in (snd pp, Inr \<lparr>pr_status = 200, pr_body = finalBody, pr_headers = hs'\<rparr>))))"

section \<open>Static files\<close>

definition serveStatic :: "Env \<Rightarrow> string \<Rightarrow> error + PartialResponse" where
  "serveStatic env filePath =
     (let filePath' = ''.'' @ filePath
      in case readFile env filePath' of
           None \<Rightarrow> Inl FileNotReadable
         | Some content \<Rightarrow>
             (let contentType = getContentType env filePath';
                  hs = (if truthy contentType
                        then headers_set [] ''content-type''
                               (case contentType of None \<Rightarrow> [] | Some t \<Rightarrow> t)
                        else [])
              in Inr \<lparr>pr_status = 200, pr_body = content, pr_headers = hs\<rparr>))"

section \<open>The dispatcher\<close>

text \<open>
  The constructor fills in the compression method; every method then reads the
  configuration it stored.
\<close>

definition Nattramn :: "Config \<Rightarrow> Config" where
  "Nattramn config =
     (if compression (server config) = None
      then config\<lparr>server := (server config)\<lparr>compression := Some Brotli\<rparr>\<rparr>
      else config)"

definition handleRequest ::
  "Env \<Rightarrow> Config \<Rightarrow> ServerRequest \<Rightarrow> Response list \<times> (error + PartialResponse)" where
  "handleRequest env config req =
     (case reqToURL req of
        None \<Rightarrow> ([], Inl InvalidURL)
      | Some url \<Rightarrow>
          (case str_match env (pathname url)
                  (case cfg_serveStatic (server config) of None \<Rightarrow> [] | Some s \<Rightarrow> s) of
             None \<Rightarrow> ([], Inl InvalidPattern)
           | Some staticPath \<Rightarrow>
               (let hasExtention = (extname env (pathname url) \<noteq> [])
                in if hasExtention
                   then (if pathname url = ''/nattramn-client.js''
                         then (case fetch_client env of
                                 None \<Rightarrow> ([], Inl FetchFailed)
                               | Some content \<Rightarrow>
                                   ([], Inr \<lparr>pr_status = 200, pr_body = content,
                                            pr_headers = new_Headers
                                              (Some [(''Content-Type'', ''application/javascript'')])\<rparr>))
                         else if staticPath
                         then ([], serveStatic env (pathname url))
                         else if truthy (cfg_serveStatic (server config))
                         then ([], serveStatic env
                                 (''/'' @ (case cfg_serveStatic (server config) of
                                            None \<Rightarrow> [] | Some s \<Rightarrow> s) @ pathname url))
                         else ([], Inl CouldNotFindFile))
                   else (case find (\<lambda>page. canHandleRoute (pathname url) (route page))
                                (pages (router config)) of
                           Some page \<Rightarrow> proxy req url page
                         | None \<Rightarrow> ([], Inl CouldNotFindRoute)))))"

section \<open>Finishing and sending the response\<close>

text \<open>
  The two compression tests of \<open>handleRequests\<close>; a missing \<open>accept-encoding\<close> header
  makes both false.
\<close>

definition accepts :: "ServerRequest \<Rightarrow> string \<Rightarrow> bool" where
  "accepts req method =
     (case headers_get (req_headers req) ''accept-encoding'' of
        None \<Rightarrow> False
      | Some v \<Rightarrow> str_includes v method)"

definition useGzip :: "Config \<Rightarrow> ServerRequest \<Rightarrow> bool" where
  "useGzip config req = (compression (server config) = Some Gzip \<and> accepts req ''gzip'')"

definition useBrotli :: "Config \<Rightarrow> ServerRequest \<Rightarrow> bool" where
  "useBrotli config req = (compression (server config) = Some Brotli \<and> accepts req ''br'')"

text \<open>
  \<open>finalize\<close> is the part of the \<open>try\<close> block of \<open>handleRequests\<close> between the return
  of \<open>handleRequest\<close> and the call of \<open>req.respond\<close>; its result is the argument of that
  call.
\<close>

definition finalize :: "Env \<Rightarrow> Config \<Rightarrow> ServerRequest \<Rightarrow> PartialResponse \<Rightarrow> Response" where
  "finalize env config req pr =
     (let checksum = sha1_hex env (pr_body pr);
          h1 = headers_set (pr_headers pr) ''ETag'' checksum;
          h2 = (if headers_get h1 ''Cache-Control'' = None
                then headers_set h1 ''Cache-Control'' ''public, max-age=3600''
                else h1);
          h3 = (if useGzip config req then headers_set h2 ''Content-Encoding'' ''gzip'' else h2);
          b3 = (if useGzip config req then gzipEncode env (pr_body pr) else pr_body pr);
          h4 = (if useBrotli config req then headers_set h3 ''Content-Encoding'' ''br'' else h3);
          b4 = (if useBrotli config req then brotliEncode env b3 else b3);
          h5 = headers_set h4 ''Content-Length'' (String_nat (length b4))
      in \<lparr>res_status = Some (pr_status pr), res_body = Some (BodyBytes b4),
          res_headers = Some h5\<rparr>)"

text \<open>
  \<open>handleRequests\<close> for one request of the server's stream: the \<open>req.respond\<close> calls it
  makes, in order. An error thrown by \<open>handleRequest\<close> is caught and answered with 404.
  A call of \<open>req.respond\<close> is taken to succeed, and the messages written with
  \<open>console.debug\<close> are not part of the model.
\<close>

definition not_found :: Response where
  "not_found = \<lparr>res_status = Some 404, res_body = Some (BodyText ''Not Found''),
                 res_headers = None\<rparr>"

definition handleRequests :: "Env \<Rightarrow> Config \<Rightarrow> ServerRequest \<Rightarrow> Response list" where
  "handleRequests env config req =
     (case handleRequest env config req of
        (sent, Inr pr) \<Rightarrow> sent @ [finalize env config req pr]
      | (sent, Inl e) \<Rightarrow> sent @ [not_found])"

section \<open>An environment for examples\<close>

text \<open>
  \<open>extname\<close> of the path library (POSIX flavour), written after the library's loop: it
  scans the path from its end, skips trailing slashes, stops at the slash before the last
  component, and records the last dot of that component.
\<close>

record ext_state =
  startDot :: int
  startPart :: int
  end_pos :: int
  matchedSlash :: bool
  preDotState :: int

fun extname_loop :: "string \<Rightarrow> nat \<Rightarrow> ext_state \<Rightarrow> ext_state" where
  "extname_loop path 0 st = st"
| "extname_loop path (Suc i) st =
     (if path ! i = CHR ''/''
      then (if \<not> matchedSlash st then st\<lparr>startPart := int i + 1\<rparr>
            else extname_loop path i st)
      else (let st1 = (if end_pos st = - 1
                       then st\<lparr>matchedSlash := False, end_pos := int i + 1\<rparr> else st);
                st2 = (if path ! i = CHR ''.''
                       then (if startDot st1 = - 1 then st1\<lparr>startDot := int i\<rparr>
                             else if preDotState st1 \<noteq> 1 then st1\<lparr>preDotState := 1\<rparr>
                             else st1)
                       else if startDot st1 \<noteq> - 1 then st1\<lparr>preDotState := - 1\<rparr>
                       else st1)
            in extname_loop path i st2))"

definition extname_posix :: "string \<Rightarrow> string" where
  "extname_posix path =
     (let st = extname_loop path (length path)
                 \<lparr>startDot = - 1, startPart = 0, end_pos = - 1, matchedSlash = True,
                  preDotState = 0\<rparr>
      in if startDot st = - 1 \<or> end_pos st = - 1 \<or> preDotState st = 0
            \<or> (preDotState st = 1 \<and> startDot st = end_pos st - 1
                \<and> startDot st = startPart st + 1)
         then []
         else take (nat (end_pos st - startDot st)) (drop (nat (startDot st)) path))"

text \<open>
  An environment with one file, \<open>./app.js\<close>, no network, a pattern engine that reads a
  pattern as plain text, and stand-ins for the hash and the compression functions.
\<close>

definition example_env :: Env where
  "example_env =
     \<lparr>extname = extname_posix,
      readFile = (\<lambda>p. if p = ''./app.js'' then Some [0x61, 0x3B] else None),
      fetch_client = None,
      regexp_match = (\<lambda>pattern subject. Some (str_includes subject pattern)),
      sha1_hex = (\<lambda>b. ''0000000000000000000000000000000000000000''),
      gzipEncode = (\<lambda>b. 0x1F # 0x8B # b),
      brotliEncode = (\<lambda>b. 0xCE # b)\<rparr>"

section \<open>Reading a response\<close>

text \<open>
  A header of a response as sent, and the number of bytes of its body: a string body is
  sent in its UTF-8 encoding.
\<close>

definition response_header :: "Response \<Rightarrow> string \<Rightarrow> string option" where
  "response_header r name = (case res_headers r of None \<Rightarrow> None | Some h \<Rightarrow> headers_get h name)"

definition body_byteLength :: "Response \<Rightarrow> nat" where
  "body_byteLength r =
     (case res_body r of
        None \<Rightarrow> 0
      | Some (BodyText s) \<Rightarrow> length (TextEncoder_encode s)
      | Some (BodyBytes b) \<Rightarrow> length b)"


text \<open>
  The \<open>Content-Length\<close> that goes out with a response: the header the server gave,
  or, when it gave none, the length of the body, which the library writes itself.
\<close>

definition content_length_sent :: "Response \<Rightarrow> string" where
  "content_length_sent r =
     (case response_header r ''Content-Length'' of
        Some v \<Rightarrow> v
      | None \<Rightarrow> String_nat (body_byteLength r))"

section \<open>Building examples\<close>

text \<open>
  A page whose handler returns the given head and body whatever the request, a
  configuration as passed to the constructor, and a request with a path and headers.
\<close>

definition page_of :: "string \<Rightarrow> string \<Rightarrow> string option \<Rightarrow> string \<Rightarrow> Page" where
  "page_of r tpl h bdy =
     \<lparr>route = r, template = tpl,
      handler = (\<lambda>req params.
        HandlerReturns (Some \<lparr>pd_head = h, pd_body = bdy, pd_headers = None\<rparr>))\<rparr>"

definition config_of :: "CompressionMethod option \<Rightarrow> string option \<Rightarrow> Page list \<Rightarrow> Config" where
  "config_of method dir pgs =
     \<lparr>server = \<lparr>compression = method, cfg_serveStatic = dir\<rparr>, router = \<lparr>pages = pgs\<rparr>\<rparr>"

definition request_of :: "string \<Rightarrow> headers \<Rightarrow> ServerRequest" where
  "request_of path hs =
     \<lparr>req_url = Some \<lparr>pathname = path, searchParams = []\<rparr>, req_headers = hs\<rparr>"


section \<open>Properties of route matching\<close>

lemma filter_id_length:
  "length (filter (\<lambda>b. b) bs) = length bs \<longleftrightarrow> (\<forall>b\<in>set bs. b)"
  by (metis filter_True length_filter_less less_irrefl filter_id_conv)

lemma all_enumerate:
  "(\<forall>x\<in>set (enumerate 0 xs). Q x) \<longleftrightarrow> (\<forall>i<length xs. Q (i, xs ! i))"
  by (auto simp: in_set_enumerate_eq)

text \<open>
  Claim C1. \<open>canHandleRoute\<close> answers true exactly when the request path and the route
  pattern split at \<open>/\<close> into the same number of segments and every pattern segment without
  a colon equals the request's segment at the same index. A pattern segment with a colon
  accepts any segment; a different segment count or a differing literal segment gives
  false.
\<close>

theorem canHandleRoute_iff:
  "canHandleRoute p r \<longleftrightarrow>
     length (split p ''/'') = length (split r ''/'') \<and>
     (\<forall>i < length (split r ''/'').
        \<not> str_includes (split r ''/'' ! i) '':'' \<longrightarrow> split r ''/'' ! i = split p ''/'' ! i)"
proof -
  define P where "P = split p ''/''"
  define R where "R = split r ''/''"
  define matches where "matches = filter (\<lambda>b. b)
            (map (\<lambda>(index, value).
                    if str_includes value '':'' then True
                    else Some value = at_index P index)
                 (enumerate 0 R))"
  have full: "length matches = length R \<longleftrightarrow>
      (\<forall>i<length R. str_includes (R ! i) '':'' \<or> Some (R ! i) = at_index P i)"
  proof -
    have "length matches = length R \<longleftrightarrow> (\<forall>x\<in>set (enumerate 0 R).
        (\<lambda>(index, value). if str_includes value '':'' then True
                            else Some value = at_index P index) x)"
      unfolding matches_def
      using filter_id_length[of "map (\<lambda>(index, value).
                    if str_includes value '':'' then True
                    else Some value = at_index P index) (enumerate 0 R)"] by simp
    also have "\<dots> \<longleftrightarrow>
        (\<forall>i<length R. str_includes (R ! i) '':'' \<or> Some (R ! i) = at_index P i)"
      unfolding all_enumerate by auto
    finally show ?thesis .
  qed
  have "canHandleRoute p r \<longleftrightarrow> length matches = length R \<and> length matches = length P"
    unfolding canHandleRoute_def Let_def matches_def P_def R_def by simp
  also have "\<dots> \<longleftrightarrow> length P = length R \<and> length matches = length R"
    by auto
  also have "\<dots> \<longleftrightarrow> length P = length R \<and>
      (\<forall>i<length R. \<not> str_includes (R ! i) '':'' \<longrightarrow> R ! i = P ! i)"
    unfolding full by (auto simp: at_index_def)
  finally show ?thesis unfolding P_def R_def .
qed

theorem canHandleRoute_iff_witness:
  "canHandleRoute ''/users/42'' ''/users/:id'' \<and>
   \<not> canHandleRoute ''/users/42/x'' ''/users/:id'' \<and>
   \<not> canHandleRoute ''/posts/42'' ''/users/:id''"
  using canHandleRoute_iff[of "''/users/42''" "''/users/:id''"]
        canHandleRoute_iff[of "''/users/42/x''" "''/users/:id''"]
        canHandleRoute_iff[of "''/posts/42''" "''/users/:id''"]
  by (simp add: split_def less_Suc_eq)

lemma str_includes_char: "str_includes s [c] \<longleftrightarrow> c \<in> set s"
  by (induction s) auto

lemma split_from_char_nomatch:
  "c \<notin> set s \<Longrightarrow> split_from [c] cur s = [cur @ s]"
  by (induction s arbitrary: cur) auto

lemma split_from_char_hd:
  "c \<in> set s \<Longrightarrow> split_from [c] cur s =
     (cur @ takeWhile (\<lambda>x. x \<noteq> c) s) # split_from [c] [] (tl (dropWhile (\<lambda>x. x \<noteq> c) s))"
  by (induction s arbitrary: cur) auto

lemma split_from_char_first:
  "hd (split_from [c] cur s) = cur @ takeWhile (\<lambda>x. x \<noteq> c) s"
  by (induction s arbitrary: cur) auto

lemma split_from_nonempty: "split_from sep cur s \<noteq> []"
  by (induction sep cur s rule: split_from.induct) auto

lemma split_from_char_nth0:
  "split_from [c] cur s ! 0 = cur @ takeWhile (\<lambda>x. x \<noteq> c) s"
  using split_from_char_first[of c cur s] split_from_nonempty[of "[c]" cur s]
  by (simp add: hd_conv_nth)

lemma split_from_length_pos: "0 < length (split_from sep cur s)"
  using split_from_nonempty[of sep cur s] by simp

lemma keyname_of_eq:
  "keyname_of seg = (if CHR '':'' \<in> set seg then Some (key_text seg) else None)"
proof (cases "CHR '':'' \<in> set seg")
  case True
  have "split seg '':'' = takeWhile (\<lambda>x. x \<noteq> CHR '':'') seg #
      split_from '':'' [] (tl (dropWhile (\<lambda>x. x \<noteq> CHR '':'') seg))"
    using split_from_char_hd[OF True, of "[]"] by (simp add: split_def)
  then show ?thesis using True
    by (simp add: keyname_of_def str_includes_char at_index_def key_text_def
        split_from_char_nth0 split_from_nonempty)
next
  case False
  then show ?thesis by (simp add: keyname_of_def str_includes_char)
qed

lemma key_indices_snoc:
  "key_indices (xs @ [x]) k = key_indices xs k @
     (if CHR '':'' \<in> set x \<and> key_text x = k \<and> k \<noteq> [] then [length xs] else [])"
proof -
  have "filter (\<lambda>i. CHR '':'' \<in> set ((xs @ [x]) ! i) \<and> key_text ((xs @ [x]) ! i) = k \<and> k \<noteq> []) [0..<length xs]
      = filter (\<lambda>i. CHR '':'' \<in> set (xs ! i) \<and> key_text (xs ! i) = k \<and> k \<noteq> []) [0..<length xs]"
    by (rule filter_cong) (auto simp: nth_append)
  then show ?thesis by (simp add: key_indices_def)
qed

lemma fold_routeParams_step:
  "fold (routeParams_step P) (enumerate 0 xs) Map.empty k =
     (if key_indices xs k = [] then None else Some (at_index P (last (key_indices xs k))))"
proof (induction xs rule: rev_induct)
  case Nil
  then show ?case by (simp add: key_indices_def)
next
  case (snoc x xs)
  show ?case
    using snoc.IH
    by (simp add: enumerate_append_eq key_indices_snoc routeParams_step_def keyname_of_eq)
qed

text \<open>
  Claim C2, as the code has it. For a name \<open>k\<close>, \<open>routeParams\<close> has an entry exactly
  when some segment of the route has a colon and the non-empty text \<open>k\<close> between its
  first colon and its next colon (or its end); the value is the request's segment at the
  index of the last such route segment, \<open>undefined\<close> (\<open>None\<close>) when the request has no
  segment there. Segments without a colon, and segments whose name is empty, add nothing.
\<close>

theorem routeParams_entries:
  "routeParams p r k =
     (if key_indices (split r ''/'') k = [] then None
      else Some (at_index (split p ''/'') (last (key_indices (split r ''/'') k))))"
  by (simp add: routeParams_def fold_routeParams_step)

text \<open>
  The claim as stated fails for the route \<open>/:id:x/:\<close> and the request \<open>/7/8\<close>: the
  first segment's text after its colon is \<open>id:x\<close>, yet the key is \<open>id\<close>; the second
  segment has a colon, yet it adds no entry.
\<close>

theorem routeParams_counterexample:
  "split ''/:id:x/:'' ''/'' = ['''', '':id:x'', '':''] \<and>
   str_includes '':id:x'' '':'' \<and> str_includes '':'' '':'' \<and>
   routeParams ''/7/8'' ''/:id:x/:'' ''id:x'' = None \<and>
   routeParams ''/7/8'' ''/:id:x/:'' '''' = None \<and>
   routeParams ''/7/8'' ''/:id:x/:'' ''id'' = Some (Some ''7'')"
  by (simp add: routeParams_def split_def routeParams_step_def keyname_of_def at_index_def)

section \<open>Properties of the template fragments\<close>

lemma split_from_first:
  assumes "sep \<noteq> []" "\<forall>i<length a. \<not> prefix sep (drop i (a @ sep @ rest))"
  shows "split_from sep cur (a @ sep @ rest) = (cur @ a) # split_from sep [] rest"
  using assms
proof (induction a arbitrary: cur)
  case Nil
  then obtain c cs where sc: "sep = c # cs" by (cases sep) auto
  show ?case by (simp add: sc)
next
  case (Cons x a)
  have np: "\<not> prefix sep (x # a @ sep @ rest)"
    using Cons.prems(2)[rule_format, of 0] by simp
  have rest: "\<forall>i<length a. \<not> prefix sep (drop i (a @ sep @ rest))"
    using Cons.prems(2) by (metis Suc_less_eq append_Cons drop_Suc_Cons length_Cons)
  show ?case using np Cons.IH[OF Cons.prems(1) rest, of "cur @ [x]"] by simp
qed

lemma split_from_none:
  assumes "\<forall>i\<le>length s. \<not> prefix sep (drop i s)"
  shows "split_from sep cur s = [cur @ s]"
  using assms
proof (induction s arbitrary: cur)
  case Nil
  then show ?case by simp
next
  case (Cons x s)
  have np: "\<not> prefix sep (x # s)" using Cons.prems[rule_format, of 0] by simp
  have "\<forall>i\<le>length s. \<not> prefix sep (drop i s)"
    using Cons.prems by (metis Suc_le_mono drop_Suc_Cons length_Cons)
  from Cons.IH[OF this, of "cur @ [x]"] np show ?case by simp
qed

lemma occurrences_one_unique:
  assumes "occurrences sub s = 1" "prefix sub (drop i s)" "prefix sub (drop j s)"
    "i \<le> length s" "j \<le> length s"
  shows "i = j"
proof -
  let ?P = "\<lambda>i. prefix sub (drop i s)"
  let ?xs = "[0..<Suc (length s)]"
  obtain z where z: "filter ?P ?xs = [z]"
    using assms(1) unfolding occurrences_def
    by (metis One_nat_def length_0_conv length_Suc_conv)
  have "i \<in> set (filter ?P ?xs)" "j \<in> set (filter ?P ?xs)"
    using assms by (simp_all add: less_Suc_eq_le del: upt_Suc)
  then show ?thesis unfolding z by simp
qed

lemma str_includes_iff: "str_includes s sub \<longleftrightarrow> (\<exists>i\<le>length s. prefix sub (drop i s))"
proof (induction s)
  case Nil
  then show ?case by auto
next
  case (Cons c cs)
  show ?case
  proof
    assume "str_includes (c # cs) sub"
    then consider "prefix sub (c # cs)" | "str_includes cs sub" by auto
    then show "\<exists>i\<le>length (c # cs). prefix sub (drop i (c # cs))"
    proof cases
      case 1
      then show ?thesis by (intro exI[of _ 0]) simp
    next
      case 2
      then obtain i where "i \<le> length cs" "prefix sub (drop i cs)" using Cons.IH by auto
      then show ?thesis by (intro exI[of _ "Suc i"]) simp
    qed
  next
    assume "\<exists>i\<le>length (c # cs). prefix sub (drop i (c # cs))"
    then obtain i where i: "i \<le> length (c # cs)" "prefix sub (drop i (c # cs))" by auto
    show "str_includes (c # cs) sub"
    proof (cases i)
      case 0
      then show ?thesis using i by simp
    next
      case (Suc k)
      then show ?thesis using i Cons.IH by auto
    qed
  qed
qed

lemma str_includes_sublist: "str_includes s sub \<longleftrightarrow> sublist sub s"
proof -
  have "(\<exists>i\<le>length s. prefix sub (drop i s)) \<longleftrightarrow> sublist sub s"
  proof
    assume "\<exists>i\<le>length s. prefix sub (drop i s)"
    then obtain i zs where "drop i s = sub @ zs" by (auto simp: prefix_def)
    then have "s = take i s @ sub @ zs" by (metis append_take_drop_id)
    then show "sublist sub s" unfolding sublist_def by blast
  next
    assume "sublist sub s"
    then obtain ps ss where s: "s = ps @ sub @ ss" unfolding sublist_def by blast
    then have "prefix sub (drop (length ps) s)" "length ps \<le> length s" by auto
    then show "\<exists>i\<le>length s. prefix sub (drop i s)" by blast
  qed
  then show ?thesis using str_includes_iff by simp
qed

lemma drop_append_shift: "drop (length p + j) (p @ s) = drop j s"
  by simp

lemma split_unique_first:
  assumes "sep \<noteq> []" "occurrences sep (a @ sep @ rest) = 1"
  shows "split_from sep cur (a @ sep @ rest) = [cur @ a, rest]"
proof -
  define t where "t = a @ sep @ rest"
  have lt: "length t = length a + length sep + length rest" by (simp add: t_def)
  have occ: "occurrences sep t = 1" using assms(2) by (simp add: t_def)
  have here: "prefix sep (drop (length a) t)" by (simp add: t_def)
  have uniq: "i = length a" if "prefix sep (drop i t)" "i \<le> length t" for i
    by (rule occurrences_one_unique[OF occ that(1) here that(2)]) (simp add: lt)
  have before: "\<forall>i<length a. \<not> prefix sep (drop i (a @ sep @ rest))"
  proof (intro allI impI notI)
    fix i assume i: "i < length a" "prefix sep (drop i (a @ sep @ rest))"
    have "i = length a" by (rule uniq) (use i in \<open>simp_all add: t_def\<close>)
    then show False using i(1) by simp
  qed
  have after: "\<forall>j\<le>length rest. \<not> prefix sep (drop j rest)"
  proof (intro allI impI notI)
    fix j assume j: "j \<le> length rest" "prefix sep (drop j rest)"
    have e: "drop (length a + length sep + j) t = drop j rest"
      by (simp add: t_def)
    have "length a + length sep + j = length a"
      by (rule uniq) (use j e lt in \<open>simp_all\<close>)
    then show False using assms(1) by simp
  qed
  have "split_from sep cur (a @ sep @ rest) = (cur @ a) # split_from sep [] rest"
    by (rule split_from_first[OF assms(1) before])
  also have "split_from sep [] rest = [[] @ rest]"
    by (rule split_from_none[OF after])
  finally show ?thesis by simp
qed

lemma markers_split:
  assumes O: "mo \<noteq> []" and C: "mc \<noteq> []"
    and t: "t = a @ mo @ inner @ mc @ b"
    and o1: "occurrences mo t = 1"
    and c1: "occurrences mc t = 1"
  shows "split t mo = [a, inner @ mc @ b]"
    and "split t mc = [a @ mo @ inner, b]"
    and "split (inner @ mc @ b) mc = inner # split_from mc [] b"
    and "str_includes t mo" and "str_includes t mc"
proof -
  show "split t mo = [a, inner @ mc @ b]"
    using split_unique_first[of mo a "inner @ mc @ b" "[]"] o1 O
    unfolding t split_def by simp
  show "split t mc = [a @ mo @ inner, b]"
    using split_unique_first[of mc "a @ mo @ inner" b "[]"] c1 C
    unfolding t split_def by simp
  show "str_includes t mo"
    unfolding str_includes_sublist t by simp
  have "sublist mc ((a @ mo @ inner) @ mc @ b)" by (rule sublist_appendI)
  then show "str_includes t mc"
    unfolding str_includes_sublist t by simp
  have inner_first: "\<forall>i<length inner. \<not> prefix mc (drop i (inner @ mc @ b))"
  proof (intro allI impI notI)
    fix i assume i: "i < length inner" "prefix mc (drop i (inner @ mc @ b))"
    have "drop (length (a @ mo) + i) ((a @ mo) @ inner @ mc @ b) = drop i (inner @ mc @ b)"
      by (rule drop_append_shift)
    then have p1: "prefix mc (drop (length (a @ mo) + i) t)" using i(2) unfolding t by simp
    have "drop (length (a @ mo @ inner)) ((a @ mo @ inner) @ mc @ b) = mc @ b"
      by (metis append_eq_conv_conj)
    then have p2: "prefix mc (drop (length (a @ mo @ inner)) t)" unfolding t by simp
    have "length (a @ mo) + i = length (a @ mo @ inner)"
      by (rule occurrences_one_unique[OF c1 p1 p2]) (use i(1) in \<open>simp_all add: t\<close>)
    then show False using i(1) by simp
  qed
  show "split (inner @ mc @ b) mc = inner # split_from mc [] b"
    using split_from_first[OF C inner_first, of "[]"] C by (simp add: split_def)
qed

text \<open>
  Claim C7, as the code has it. A template that is a prefix, the open marker, an inner
  content, the close marker and a suffix, in this order, and in which each marker occurs
  exactly once, is split by \<open>generatePreContent\<close> into that prefix and by
  \<open>generatePostContent\<close> into that suffix (with \<open>isPartial = false\<close>); putting the
  pre-fragment, the open marker, the inner content, the close marker and the post-fragment
  together gives the template back.
\<close>

theorem template_reconstruction:
  assumes t: "t = a @ ''<nattramn-router>'' @ inner @ ''</nattramn-router>'' @ b"
    and o1: "occurrences ''<nattramn-router>'' t = 1"
    and c1: "occurrences ''</nattramn-router>'' t = 1"
  shows "generatePreContent t False = Some a \<and>
         generatePostContent t False = Some b \<and>
         inner_content t = inner \<and>
         the (generatePreContent t False) @ ''<nattramn-router>'' @ inner_content t @
           ''</nattramn-router>'' @ the (generatePostContent t False) = t"
proof -
  note ms = markers_split[OF _ _ t o1 c1]
  have pre: "generatePreContent t False = Some a"
    unfolding generatePreContent_def using ms(1,4) by (simp add: at_index_def)
  have post: "generatePostContent t False = Some b"
    unfolding generatePostContent_def using ms(2,5) by (simp add: at_index_def)
  have inn: "inner_content t = inner"
    unfolding inner_content_def using ms(1,3) by (simp add: at_index_def)
  have whole: "a @ ''<nattramn-router>'' @ inner @ ''</nattramn-router>'' @ b = t"
    using t by (rule sym)
  have sel: "the (Some a) = a" "the (Some b) = b" by simp_all
  show ?thesis
    apply (subst pre)+
    apply (subst post)+
    apply (subst inn)+
    apply (subst sel)+
    apply (intro conjI refl)
    apply (rule whole)
    done
qed

theorem template_reconstruction_witness:
  "occurrences ''<nattramn-router>'' ''<p><nattramn-router>x</nattramn-router></p>'' = 1 \<and>
   occurrences ''</nattramn-router>'' ''<p><nattramn-router>x</nattramn-router></p>'' = 1 \<and>
   generatePreContent ''<p><nattramn-router>x</nattramn-router></p>'' False = Some ''<p>'' \<and>
   generatePostContent ''<p><nattramn-router>x</nattramn-router></p>'' False = Some ''</p>'' \<and>
   inner_content ''<p><nattramn-router>x</nattramn-router></p>'' = ''x''"
proof -
  have t: "''<p><nattramn-router>x</nattramn-router></p>'' =
      ''<p>'' @ ''<nattramn-router>'' @ ''x'' @ ''</nattramn-router>'' @ ''</p>''"
    by simp
  have o1: "occurrences ''<nattramn-router>'' ''<p><nattramn-router>x</nattramn-router></p>'' = 1"
    by (simp add: occurrences_def)
  have c1: "occurrences ''</nattramn-router>'' ''<p><nattramn-router>x</nattramn-router></p>'' = 1"
    by (simp add: occurrences_def)
  from template_reconstruction[OF t o1 c1] o1 c1 show ?thesis by blast
qed

text \<open>
  The claim as stated, for every template with exactly one open and one close marker,
  fails when the close marker comes first: in \<open></nattramn-router><nattramn-router>\<close> each
  marker occurs once, the pre-fragment is the close marker and the post-fragment is the
  open marker, and the concatenation is longer than the template.
\<close>

theorem template_reconstruction_counterexample:
  "occurrences ''<nattramn-router>'' ''</nattramn-router><nattramn-router>'' = 1 \<and>
   occurrences ''</nattramn-router>'' ''</nattramn-router><nattramn-router>'' = 1 \<and>
   generatePreContent ''</nattramn-router><nattramn-router>'' False = Some ''</nattramn-router>'' \<and>
   generatePostContent ''</nattramn-router><nattramn-router>'' False = Some ''<nattramn-router>'' \<and>
   inner_content ''</nattramn-router><nattramn-router>'' = '''' \<and>
   ''</nattramn-router>'' @ ''<nattramn-router>'' @
     inner_content ''</nattramn-router><nattramn-router>'' @
     ''</nattramn-router>'' @ ''<nattramn-router>'' \<noteq> ''</nattramn-router><nattramn-router>''"
  by (simp add: occurrences_def generatePreContent_def generatePostContent_def
      inner_content_def split_def at_index_def)

section \<open>Properties of the finished response\<close>

lemma map_of_filter_other:
  "k' \<noteq> k \<Longrightarrow> map_of (filter (\<lambda>kv. fst kv \<noteq> k) h) k' = map_of h k'"
  by (induction h) auto

lemma headers_get_set:
  "headers_get (headers_set h n v) m =
     (if toLowerCase m = toLowerCase n then Some v else headers_get h m)"
  by (simp add: headers_get_def headers_set_def map_of_filter_other)

lemma lower_names:
  "toLowerCase ''Content-Encoding'' = ''content-encoding''"
  "toLowerCase ''Content-Length'' = ''content-length''"
  "toLowerCase ''Cache-Control'' = ''cache-control''"
  "toLowerCase ''ETag'' = ''etag''"
  by (simp_all add: toLowerCase_def lower_char_def)

lemma accepts_iff:
  "accepts req m \<longleftrightarrow> (\<exists>v. headers_get (req_headers req) ''accept-encoding'' = Some v \<and> sublist m v)"
  by (auto simp: accepts_def str_includes_sublist split: option.splits)

lemma finalize_body:
  "res_body (finalize env config req pr) =
     Some (BodyBytes (if useGzip config req then gzipEncode env (pr_body pr)
                      else if useBrotli config req then brotliEncode env (pr_body pr)
                      else pr_body pr))"
  by (auto simp: finalize_def Let_def useGzip_def useBrotli_def)

lemma finalize_encoding:
  "response_header (finalize env config req pr) ''Content-Encoding'' =
     (if useGzip config req then Some ''gzip''
      else if useBrotli config req then Some ''br''
      else headers_get (pr_headers pr) ''Content-Encoding'')"
  by (auto simp: finalize_def Let_def response_header_def headers_get_set lower_names
      useGzip_def useBrotli_def)

lemma finalize_length:
  "response_header (finalize env config req pr) ''Content-Length'' =
     Some (String_nat (body_byteLength (finalize env config req pr)))"
  by (simp add: finalize_def Let_def response_header_def headers_get_set body_byteLength_def)

text \<open>
  Claim C5. Gzip is applied exactly when the configured method is \<open>gzip\<close> and the
  request's \<open>accept-encoding\<close> header contains \<open>gzip\<close>, brotli exactly when the method
  is \<open>br\<close> and the header contains \<open>br\<close>; never both. The body sent is the compressed
  body of the method applied, and \<open>Content-Encoding\<close> is set to that method; when no
  method is applied, and so with the method \<open>none\<close>, finishing the response leaves
  \<open>Content-Encoding\<close> as it came, whatever \<open>accept-encoding\<close> says.
\<close>

theorem compression_negotiation:
  "(useGzip config req \<longleftrightarrow>
      compression (server config) = Some Gzip \<and>
      (\<exists>v. headers_get (req_headers req) ''accept-encoding'' = Some v \<and> sublist ''gzip'' v)) \<and>
   (useBrotli config req \<longleftrightarrow>
      compression (server config) = Some Brotli \<and>
      (\<exists>v. headers_get (req_headers req) ''accept-encoding'' = Some v \<and> sublist ''br'' v)) \<and>
   \<not> (useGzip config req \<and> useBrotli config req) \<and>
   res_body (finalize env config req pr) =
     Some (BodyBytes (if useGzip config req then gzipEncode env (pr_body pr)
                      else if useBrotli config req then brotliEncode env (pr_body pr)
                      else pr_body pr)) \<and>
   response_header (finalize env config req pr) ''Content-Encoding'' =
     (if useGzip config req then Some ''gzip''
      else if useBrotli config req then Some ''br''
      else headers_get (pr_headers pr) ''Content-Encoding'') \<and>
   (compression (server config) = Some NoCompression \<longrightarrow>
      response_header (finalize env config req pr) ''Content-Encoding'' =
        headers_get (pr_headers pr) ''Content-Encoding'')"
proof -
  have g: "useGzip config req \<longleftrightarrow>
      compression (server config) = Some Gzip \<and>
      (\<exists>v. headers_get (req_headers req) ''accept-encoding'' = Some v \<and> sublist ''gzip'' v)"
    by (simp add: useGzip_def accepts_iff)
  have b: "useBrotli config req \<longleftrightarrow>
      compression (server config) = Some Brotli \<and>
      (\<exists>v. headers_get (req_headers req) ''accept-encoding'' = Some v \<and> sublist ''br'' v)"
    by (simp add: useBrotli_def accepts_iff)
  have n: "\<not> (useGzip config req \<and> useBrotli config req)"
    by (auto simp: useGzip_def useBrotli_def)
  have none: "compression (server config) = Some NoCompression \<longrightarrow>
      response_header (finalize env config req pr) ''Content-Encoding'' =
        headers_get (pr_headers pr) ''Content-Encoding''"
    unfolding finalize_encoding by (simp add: useGzip_def useBrotli_def)
  show ?thesis
    using g b n none finalize_body[of env config req pr] finalize_encoding[of env config req pr]
    by blast
qed

theorem compression_negotiation_witness:
  "useGzip (Nattramn (config_of (Some Gzip) None []))
     (request_of ''/x'' [(''accept-encoding'', ''gzip, br'')]) \<and>
   res_body (finalize example_env (Nattramn (config_of (Some Gzip) None []))
     (request_of ''/x'' [(''accept-encoding'', ''gzip, br'')])
     \<lparr>pr_status = 200, pr_body = [0x61], pr_headers = []\<rparr>) = Some (BodyBytes [0x1F, 0x8B, 0x61]) \<and>
   response_header (finalize example_env (Nattramn (config_of (Some Gzip) None []))
     (request_of ''/x'' [(''accept-encoding'', ''gzip, br'')])
     \<lparr>pr_status = 200, pr_body = [0x61], pr_headers = []\<rparr>) ''Content-Encoding'' = Some ''gzip'' \<and>
   response_header (finalize example_env (Nattramn (config_of (Some NoCompression) None []))
     (request_of ''/x'' [(''accept-encoding'', ''gzip, br'')])
     \<lparr>pr_status = 200, pr_body = [0x61], pr_headers = []\<rparr>) ''Content-Encoding'' = None"
proof -
  let ?g = "Nattramn (config_of (Some Gzip) None [])"
  let ?n = "Nattramn (config_of (Some NoCompression) None [])"
  let ?r = "request_of ''/x'' [(''accept-encoding'', ''gzip, br'')]"
  let ?p = "\<lparr>pr_status = 200, pr_body = [0x61], pr_headers = []\<rparr>"
  have m: "compression (server ?g) = Some Gzip" by code_simp
  have mn: "compression (server ?n) = Some NoCompression" by code_simp
  have a: "headers_get (req_headers ?r) ''accept-encoding'' = Some ''gzip, br''" by code_simp
  have s: "sublist ''gzip'' ''gzip, br''"
    unfolding str_includes_sublist[symmetric] by code_simp
  have ug: "useGzip ?g ?r"
    using compression_negotiation[of ?g ?r example_env ?p] m a s by blast
  have gz: "gzipEncode example_env [0x61] = [0x1F, 0x8B, 0x61]" by code_simp
  have hn: "headers_get (pr_headers ?p) ''Content-Encoding'' = None" by code_simp
  have b: "res_body (finalize example_env ?g ?r ?p) = Some (BodyBytes [0x1F, 0x8B, 0x61])"
    using compression_negotiation[of ?g ?r example_env ?p] ug gz by simp
  have e: "response_header (finalize example_env ?g ?r ?p) ''Content-Encoding'' = Some ''gzip''"
    using compression_negotiation[of ?g ?r example_env ?p] ug by simp
  have n: "response_header (finalize example_env ?n ?r ?p) ''Content-Encoding'' = None"
    using compression_negotiation[of ?n ?r example_env ?p] mn hn by simp
  show ?thesis using ug b e n by blast
qed


lemma pre_part_sent_headers: "r \<in> set (snd (pre_part p h)) \<Longrightarrow> res_headers r = None"
  by (auto simp: pre_part_def Let_def split: if_splits)

lemma proxy_sent_headers:
  "proxy req u page = (sent, res) \<Longrightarrow> r \<in> set sent \<Longrightarrow> res_headers r = None"
  by (auto simp: proxy_def Let_def split: handler_result.splits option.splits
      dest: pre_part_sent_headers)

lemma handleRequest_sent_headers:
  "handleRequest env config req = (sent, res) \<Longrightarrow> r \<in> set sent \<Longrightarrow> res_headers r = None"
  by (auto simp: handleRequest_def Let_def split: option.splits if_splits
      dest: proxy_sent_headers)

text \<open>
  Claim C8. On the success path the response sent last is the finished one, and its
  \<open>Content-Length\<close> header is the number of bytes of the body it carries, which is the
  compressed body when a compression was applied. A response sent before it carries no
  header of the server's, so every response of the path goes out with the length of its
  own body.
\<close>

theorem content_length_exact:
  "handleRequest env config req = (sent, Inr pr) \<Longrightarrow>
     handleRequests env config req = sent @ [finalize env config req pr] \<and>
     response_header (finalize env config req pr) ''Content-Length'' =
       Some (String_nat (body_byteLength (finalize env config req pr))) \<and>
     body_byteLength (finalize env config req pr) =
       length (if useGzip config req then gzipEncode env (pr_body pr)
               else if useBrotli config req then brotliEncode env (pr_body pr)
               else pr_body pr) \<and>
     list_all (\<lambda>r. content_length_sent r = String_nat (body_byteLength r))
       (handleRequests env config req)"
proof -
  assume h: "handleRequest env config req = (sent, Inr pr)"
  have all: "handleRequests env config req = sent @ [finalize env config req pr]"
    using h by (simp add: handleRequests_def)
  have early: "content_length_sent r = String_nat (body_byteLength r)" if "r \<in> set sent" for r
    using handleRequest_sent_headers[OF h that]
    by (simp add: content_length_sent_def response_header_def)
  have last: "content_length_sent (finalize env config req pr) =
      String_nat (body_byteLength (finalize env config req pr))"
    by (simp add: content_length_sent_def finalize_length)
  have "list_all (\<lambda>r. content_length_sent r = String_nat (body_byteLength r))
       (handleRequests env config req)"
    unfolding all list_all_iff using early last by auto
  then show ?thesis
    using all by (simp add: finalize_length body_byteLength_def finalize_body)
qed

theorem content_length_exact_witness:
  "handleRequests example_env (Nattramn (config_of (Some Gzip) None []))
       (request_of ''/app.js'' [(''accept-encoding'', ''gzip, br'')])
     = [finalize example_env (Nattramn (config_of (Some Gzip) None []))
         (request_of ''/app.js'' [(''accept-encoding'', ''gzip, br'')])
         \<lparr>pr_status = 200, pr_body = [0x61, 0x3B],
          pr_headers = [(''content-type'', ''application/javascript'')]\<rparr>] \<and>
   body_byteLength (finalize example_env (Nattramn (config_of (Some Gzip) None []))
         (request_of ''/app.js'' [(''accept-encoding'', ''gzip, br'')])
         \<lparr>pr_status = 200, pr_body = [0x61, 0x3B],
          pr_headers = [(''content-type'', ''application/javascript'')]\<rparr>) = 4 \<and>
   response_header (finalize example_env (Nattramn (config_of (Some Gzip) None []))
         (request_of ''/app.js'' [(''accept-encoding'', ''gzip, br'')])
         \<lparr>pr_status = 200, pr_body = [0x61, 0x3B],
          pr_headers = [(''content-type'', ''application/javascript'')]\<rparr>) ''Content-Length''
     = Some ''4''"
proof -
  let ?g = "Nattramn (config_of (Some Gzip) None [])"
  let ?r = "request_of ''/app.js'' [(''accept-encoding'', ''gzip, br'')]"
  let ?p = "\<lparr>pr_status = 200, pr_body = [0x61, 0x3B],
          pr_headers = [(''content-type'', ''application/javascript'')]\<rparr>"
  have h: "handleRequest example_env ?g ?r = ([], Inr ?p)" by code_simp
  have l: "body_byteLength (finalize example_env ?g ?r ?p) = 4" by code_simp
  have s: "String_nat 4 = ''4''" by code_simp
  show ?thesis using content_length_exact[OF h] l s by simp
qed


section \<open>Status codes\<close>

lemma proxy_status: "proxy req u page = (sent, Inr pr) \<Longrightarrow> pr_status pr = 200"
  by (auto simp: proxy_def Let_def split: handler_result.splits option.splits)

lemma pre_part_sent: "r \<in> set (snd (pre_part p h)) \<Longrightarrow> res_status r = None"
  by (auto simp: pre_part_def Let_def split: if_splits)

lemma proxy_sent: "proxy req u page = (sent, res) \<Longrightarrow> r \<in> set sent \<Longrightarrow> res_status r = None"
  by (auto simp: proxy_def Let_def split: handler_result.splits option.splits dest: pre_part_sent)

lemma serveStatic_status: "serveStatic env p = Inr pr \<Longrightarrow> pr_status pr = 200"
  by (auto simp: serveStatic_def Let_def split: option.splits)

lemma handleRequest_status:
  "handleRequest env config req = (sent, Inr pr) \<Longrightarrow> pr_status pr = 200"
  by (auto simp: handleRequest_def Let_def split: option.splits if_splits
      dest: proxy_status serveStatic_status)

lemma handleRequest_sent:
  "handleRequest env config req = (sent, res) \<Longrightarrow> r \<in> set sent \<Longrightarrow> res_status r = None"
  by (auto simp: handleRequest_def Let_def split: option.splits if_splits
      dest: proxy_sent)

text \<open>
  Claim C10. Every \<open>PartialResponse\<close> that \<open>handleRequest\<close> returns, from a page,
  from a static file or for the client bundle, has status 200; every response sent for a
  request goes out with status 200 or with status 404.
\<close>

theorem status_200_or_404:
  "(\<forall>sent pr. handleRequest env config req = (sent, Inr pr) \<longrightarrow> pr_status pr = 200) \<and>
   (\<forall>r \<in> set (handleRequests env config req). status_sent r = 200 \<or> status_sent r = 404)"
proof (intro conjI allI impI ballI)
  fix sent pr assume "handleRequest env config req = (sent, Inr pr)"
  then show "pr_status pr = 200" by (rule handleRequest_status)
next
  fix r assume r: "r \<in> set (handleRequests env config req)"
  obtain sent res where h: "handleRequest env config req = (sent, res)"
    by (cases "handleRequest env config req")
  show "status_sent r = 200 \<or> status_sent r = 404"
  proof (cases res)
    case (Inl e)
    then have "r \<in> set sent \<or> r = not_found" using r h by (auto simp: handleRequests_def)
    then show ?thesis
      using handleRequest_sent[OF h] by (auto simp: status_sent_def not_found_def)
  next
    case (Inr pr)
    then have "r \<in> set sent \<or> r = finalize env config req pr"
      using r h by (auto simp: handleRequests_def)
    moreover have "pr_status pr = 200" using h Inr handleRequest_status by blast
    ultimately show ?thesis
      using handleRequest_sent[OF h] by (auto simp: status_sent_def finalize_def Let_def)
  qed
qed

theorem status_200_or_404_witness:
  "handleRequests example_env (Nattramn (config_of None None [])) (request_of ''/nope'' []) \<noteq> [] \<and>
   list_all (\<lambda>r. status_sent r = 200 \<or> status_sent r = 404)
     (handleRequests example_env (Nattramn (config_of None None [])) (request_of ''/nope'' [])) \<and>
   handleRequests example_env (Nattramn (config_of None None [])) (request_of ''/app.js'' []) \<noteq> [] \<and>
   list_all (\<lambda>r. status_sent r = 200 \<or> status_sent r = 404)
     (handleRequests example_env (Nattramn (config_of None None [])) (request_of ''/app.js'' []))"
proof -
  have a: "handleRequests example_env (Nattramn (config_of None None [])) (request_of ''/nope'' []) \<noteq> []"
    by code_simp
  have b: "handleRequests example_env (Nattramn (config_of None None [])) (request_of ''/app.js'' []) \<noteq> []"
    by code_simp
  show ?thesis
    using a b status_200_or_404[of example_env "Nattramn (config_of None None [])" "request_of ''/nope'' []"]
      status_200_or_404[of example_env "Nattramn (config_of None None [])" "request_of ''/app.js'' []"]
    unfolding list_all_iff by blast
qed

section \<open>Where the code leaves the specification\<close>

subsection \<open>A page without a head\<close>

text \<open>
  When the pre-fragment is non-empty and the handler gives no head, \<open>proxy\<close> answers the
  request with the pre-fragment alone and then goes on: it returns a page response with the
  wrapped body and the post-fragment, which \<open>handleRequests\<close> sends as a second response.
\<close>

lemma proxy_head_absent:
  assumes full: "\<not> truthy (headers_get (req_headers req) ''x-partial-content'')"
      "\<not> truthy (searchParams_get u ''partialContent'')"
    and data: "handler page req (routeParams (pathname u) (route page)) = HandlerReturns (Some pd)"
    and head: "\<not> truthy (pd_head pd)"
    and pre: "generatePreContent (template page) False = Some p" "p \<noteq> []"
  shows "proxy req u page =
     ([\<lparr>res_status = None, res_body = Some (BodyText p), res_headers = None\<rparr>],
      Inr \<lparr>pr_status = 200,
           pr_body = TextEncoder_encode
             (join ([Some (''<nattramn-router>'' @ pd_body pd @ ''</nattramn-router>'')] @
                    (if truthy (generatePostContent (template page) False)
                     then [generatePostContent (template page) False] else []))
                [CHR 0x0A]),
           pr_headers = headers_set (new_Headers (pd_headers pd)) ''Content-Type'' ''text/html''\<rparr>)"
  using assms
  by (simp add: proxy_def Let_def title_update_def pre_part_def truthy_def)

text \<open>
  Claim C3 says that for a non-partial request with a non-null pre-fragment and no head
  the client is sent the pre-fragment only. For the template
  \<open><html><nattramn-router></nattramn-router></html>\<close> and a handler that returns the
  body \<open><p>hi</p>\<close> and no head, the server calls \<open>req.respond\<close> twice: first with the
  pre-fragment, then with the wrapped body and the post-fragment.
\<close>

theorem head_absent_two_responses:
  "handleRequests example_env
     (Nattramn (config_of None None
        [page_of ''/x'' ''<html><nattramn-router></nattramn-router></html>'' None ''<p>hi</p>'']))
     (request_of ''/x'' []) =
   [\<lparr>res_status = None, res_body = Some (BodyText ''<html>''), res_headers = None\<rparr>,
    \<lparr>res_status = Some 200,
     res_body = Some (BodyBytes (TextEncoder_encode
       (''<nattramn-router><p>hi</p></nattramn-router>'' @ [CHR 0x0A] @ ''</html>''))),
     res_headers = Some [(''content-length'', ''52''),
                         (''cache-control'', ''public, max-age=3600''),
                         (''etag'', ''0000000000000000000000000000000000000000''),
                         (''content-type'', ''text/html'')]\<rparr>]"
  by code_simp


subsection \<open>A path with an extension and no static prefix\<close>

text \<open>
  Without a \<open>serveStatic\<close> prefix the path is matched against the empty pattern, which
  matches every path: the file named by the path itself is served, and the branch that
  throws \<open>Could not find file.\<close> is never reached.
\<close>

lemma no_prefix_serves_file:
  assumes "reqToURL req = Some url" "cfg_serveStatic (server config) = None"
    "extname env (pathname url) \<noteq> []" "pathname url \<noteq> ''/nattramn-client.js''"
  shows "handleRequest env config req = ([], serveStatic env (pathname url))"
  using assms by (simp add: handleRequest_def str_match_def)

lemma serveStatic_error: "serveStatic env p = Inl e \<Longrightarrow> e = FileNotReadable"
  by (auto simp: serveStatic_def Let_def split: option.splits)

lemma proxy_error:
  "proxy req u page = (sent, Inl e) \<Longrightarrow> e \<in> {HandlerFailed, NoPageData, InvalidCharacter}"
  by (auto simp: proxy_def Let_def split: handler_result.splits option.splits)

lemma could_not_find_file_unreachable:
  "handleRequest env config req \<noteq> (sent, Inl CouldNotFindFile)"
proof
  assume h: "handleRequest env config req = (sent, Inl CouldNotFindFile)"
  then obtain url where u: "reqToURL req = Some url"
    by (auto simp: handleRequest_def split: option.splits)
  define dir where "dir = (case cfg_serveStatic (server config) of None \<Rightarrow> [] | Some s \<Rightarrow> s)"
  from h u obtain staticPath where m: "str_match env (pathname url) dir = Some staticPath"
    by (auto simp: handleRequest_def dir_def split: option.splits)
  have t: "staticPath \<or> truthy (cfg_serveStatic (server config))"
    using m by (auto simp: str_match_def dir_def truthy_def split: option.splits if_splits)
  show False
    using h u m t
    by (auto simp: handleRequest_def dir_def Let_def split: option.splits if_splits
        dest: serveStatic_error proxy_error)
qed

text \<open>
  Claim C4 says that a path with an extension, other than the client bundle's, gives 404
  when no \<open>serveStatic\<close> prefix is configured. For the path \<open>/app.js\<close>, with a file
  \<open>./app.js\<close> in the working directory, the server answers 200 with the file.
\<close>

theorem static_served_without_prefix:
  "handleRequests example_env (Nattramn (config_of (Some NoCompression) None []))
     (request_of ''/app.js'' []) =
   [\<lparr>res_status = Some 200, res_body = Some (BodyBytes [0x61, 0x3B]),
     res_headers = Some [(''content-length'', ''2''),
                         (''cache-control'', ''public, max-age=3600''),
                         (''etag'', ''0000000000000000000000000000000000000000''),
                         (''content-type'', ''application/javascript'')]\<rparr>]"
  by code_simp


subsection \<open>A pre-fragment without a head tag\<close>

lemma split_without_separator:
  assumes "\<not> str_includes s sep"
  shows "split s sep = [s]"
proof (cases "sep = []")
  case True
  then show ?thesis using assms by (cases s) simp_all
next
  case False
  have "\<forall>i\<le>length s. \<not> prefix sep (drop i s)"
    using assms unfolding str_includes_iff by blast
  from split_from_none[OF this, of "[]"] False show ?thesis by (simp add: split_def)
qed

lemma pre_part_without_head_tag:
  assumes "p \<noteq> []" "h \<noteq> []" "\<not> str_includes p ''<head>''"
  shows "fst (pre_part (Some p) (Some h)) = [Some p, Some (''<head>'' @ h), None]"
  using assms split_without_separator[OF assms(3)]
  by (simp add: pre_part_def truthy_def at_index_def)
text \<open>
  Claim C9 says that splitting the pre-fragment at \<open><head>\<close> always gives two elements.
  For the template \<open><p><nattramn-router></nattramn-router></p>\<close> the pre-fragment is
  \<open><p>\<close>, the split has one element, and the third fragment pushed to the response
  body is \<open>undefined\<close>.
\<close>

theorem head_split_one_element:
  "generatePreContent ''<p><nattramn-router></nattramn-router></p>'' False = Some ''<p>'' \<and>
   split ''<p>'' ''<head>'' = [''<p>''] \<and>
   at_index (split ''<p>'' ''<head>'') 1 = None \<and>
   fst (pre_part (Some ''<p>'') (Some ''<title>t</title>'')) =
     [Some ''<p>'', Some ''<head><title>t</title>'', None]"
  by code_simp

section \<open>Properties of the encodings\<close>

lemma b64_table:
  "list_all (\<lambda>n. b64_index (b64_digit n) = Some n \<and> b64_digit n \<noteq> CHR ''='') [0..<64]"
  by code_simp

lemma b64_index_digit: "n < 64 \<Longrightarrow> b64_index (b64_digit n) = Some n"
  using b64_table unfolding list_all_iff by simp

lemma b64_digit_not_pad: "n < 64 \<Longrightarrow> b64_digit n \<noteq> CHR ''=''"
  using b64_table unfolding list_all_iff by simp

lemma unat_byte_less: "unat (b :: 8 word) < 256"
  using unsigned_less[of b, where 'a=nat] by simp

lemma sextets:
  fixes a b c :: nat
  assumes "a < 256" "b < 256" "c < 256"
  shows "a div 4 < 64" "a mod 4 * 16 < 64" "a mod 4 * 16 + b div 16 < 64"
    "b mod 16 * 4 < 64" "b mod 16 * 4 + c div 64 < 64" "c mod 64 < 64"
proof -
  have a4: "a mod 4 < 4" and b16: "b mod 16 < 16" by simp_all
  have bd: "b div 16 < 16" and cd: "c div 64 < 4" using assms by simp_all
  show "a div 4 < 64" using assms by simp
  show "a mod 4 * 16 < 64" using a4 by linarith
  show "a mod 4 * 16 + b div 16 < 64" using a4 bd by linarith
  show "b mod 16 * 4 < 64" using b16 by linarith
  show "b mod 16 * 4 + c div 64 < 64" using b16 cd by linarith
  show "c mod 64 < 64" by simp
qed

lemma sextets_back:
  fixes a b c :: nat
  assumes "a < 256" "b < 256" "c < 256"
  shows "a div 4 * 4 + (a mod 4 * 16) div 16 = a"
    "a div 4 * 4 + (a mod 4 * 16 + b div 16) div 16 = a"
    "(a mod 4 * 16 + b div 16) mod 16 * 16 + (b mod 16 * 4) div 4 = b"
    "(a mod 4 * 16 + b div 16) mod 16 * 16 + (b mod 16 * 4 + c div 64) div 4 = b"
    "(b mod 16 * 4 + c div 64) mod 4 * 64 + c mod 64 = c"
proof -
  have bd: "b div 16 < 16" and cd: "c div 64 < 4" using assms by simp_all
  have e1: "(a mod 4 * 16 + b div 16) div 16 = a mod 4" using bd by simp
  have e2: "(a mod 4 * 16 + b div 16) mod 16 = b div 16" using bd by simp
  have e3: "(b mod 16 * 4 + c div 64) div 4 = b mod 16" using cd by simp
  have e4: "(b mod 16 * 4 + c div 64) mod 4 = c div 64" using cd by simp
  show "a div 4 * 4 + (a mod 4 * 16) div 16 = a" by simp
  show "a div 4 * 4 + (a mod 4 * 16 + b div 16) div 16 = a" unfolding e1 by simp
  show "(a mod 4 * 16 + b div 16) mod 16 * 16 + (b mod 16 * 4) div 4 = b" unfolding e2 by simp
  show "(a mod 4 * 16 + b div 16) mod 16 * 16 + (b mod 16 * 4 + c div 64) div 4 = b"
    unfolding e2 e3 by simp
  show "(b mod 16 * 4 + c div 64) mod 4 * 64 + c mod 64 = c" unfolding e4 by simp
qed

lemma byte_of_unat: "n = unat b \<Longrightarrow> (of_nat n :: 8 word) = b"
  by simp

lemma decode_quad:
  assumes "x < 64" "y < 64" "z < 64" "w < 64"
  shows "base64_decode (b64_digit x # b64_digit y # b64_digit z # b64_digit w # rest) =
     (case base64_decode rest of
        None \<Rightarrow> None
      | Some bs \<Rightarrow> Some (of_nat (x * 4 + y div 16) # of_nat (y mod 16 * 16 + z div 4) #
                        of_nat (z mod 4 * 64 + w) # bs))"
  using assms
  by (simp add: b64_index_digit b64_digit_not_pad split: option.splits
      del: of_nat_add of_nat_mult)

lemma decode_pad1:
  assumes "x < 64" "y < 64" "z < 64"
  shows "base64_decode [b64_digit x, b64_digit y, b64_digit z, CHR ''=''] =
     Some [of_nat (x * 4 + y div 16), of_nat (y mod 16 * 16 + z div 4)]"
  using assms
  by (simp add: b64_index_digit b64_digit_not_pad del: of_nat_add of_nat_mult)

lemma decode_pad2:
  assumes "x < 64" "y < 64"
  shows "base64_decode [b64_digit x, b64_digit y, CHR ''='', CHR ''=''] =
     Some [of_nat (x * 4 + y div 16)]"
  using assms
  by (simp add: b64_index_digit b64_digit_not_pad del: of_nat_add of_nat_mult)

lemma base64_decode_base64: "base64_decode (base64 bs) = Some bs"
proof (induction bs rule: base64.induct)
  case 1
  then show ?case by simp
next
  case (2 a)
  note s = sextets[OF unat_byte_less[of a] unat_byte_less[of a] unat_byte_less[of a]]
  note k = sextets_back[OF unat_byte_less[of a] unat_byte_less[of a] unat_byte_less[of a]]
  have "base64_decode (base64 [a]) = Some [of_nat (unat a div 4 * 4 + (unat a mod 4 * 16) div 16)]"
    unfolding base64.simps by (rule decode_pad2[OF s(1) s(2)])
  also have "\<dots> = Some [a]" unfolding k(1) by simp
  finally show ?case .
next
  case (3 a b)
  note s = sextets[OF unat_byte_less[of a] unat_byte_less[of b] unat_byte_less[of b]]
  note k = sextets_back[OF unat_byte_less[of a] unat_byte_less[of b] unat_byte_less[of b]]
  have "base64_decode (base64 [a, b]) =
      Some [of_nat (unat a div 4 * 4 + (unat a mod 4 * 16 + unat b div 16) div 16),
            of_nat ((unat a mod 4 * 16 + unat b div 16) mod 16 * 16 + (unat b mod 16 * 4) div 4)]"
    unfolding base64.simps by (rule decode_pad1[OF s(1) s(3) s(4)])
  also have "\<dots> = Some [a, b]" unfolding k(2) k(3) by simp
  finally show ?case .
next
  case (4 a b c rest)
  note s = sextets[OF unat_byte_less[of a] unat_byte_less[of b] unat_byte_less[of c]]
  note k = sextets_back[OF unat_byte_less[of a] unat_byte_less[of b] unat_byte_less[of c]]
  have "base64_decode (base64 (a # b # c # rest)) =
      Some (of_nat (unat a div 4 * 4 + (unat a mod 4 * 16 + unat b div 16) div 16) #
            of_nat ((unat a mod 4 * 16 + unat b div 16) mod 16 * 16
                    + (unat b mod 16 * 4 + unat c div 64) div 4) #
            of_nat ((unat b mod 16 * 4 + unat c div 64) mod 4 * 64 + unat c mod 64) # rest)"
    unfolding base64.simps append.simps
    by (subst decode_quad[OF s(1) s(3) s(5) s(6)]) (simp only: "4.IH" option.case)
  also have "\<dots> = Some (a # b # c # rest)" unfolding k(2) k(4) k(5) by simp
  finally show ?case .
qed

lemma hex_upper_table:
  "list_all (\<lambda>d. hex_value (hex_upper d) = Some d \<and> hex_upper d \<noteq> CHR ''u'') [0..<16]"
  by code_simp

lemma hex_value_upper: "d < 16 \<Longrightarrow> hex_value (hex_upper d) = Some d"
  using hex_upper_table unfolding list_all_iff by simp

lemma hex_upper_not_u: "d < 16 \<Longrightarrow> hex_upper d \<noteq> CHR ''u''"
  using hex_upper_table unfolding list_all_iff by simp

lemma hex_number_two:
  "a < 16 \<Longrightarrow> b < 16 \<Longrightarrow> hex_number [hex_upper a, hex_upper b] = Some (16 * a + b)"
  by (simp add: hex_number_def hex_value_upper)

lemma unescape_pct_byte:
  "unescape (pct_byte b @ rest) = unat b # unescape rest"
proof -
  have lt: "unat b div 16 < 16" "unat b mod 16 < 16"
    using unat_byte_less[of b] by (simp_all add: less_mult_imp_div_less)
  have v: "16 * (unat b div 16) + unat b mod 16 = unat b" by simp
  show ?thesis
    using lt v
    by (simp add: pct_byte_def hex_number_two hex_upper_not_u)
qed

lemma unescape_pct_bytes:
  "unescape (concat (map pct_byte bs) @ rest) = map unat bs @ unescape rest"
  by (induction bs) (simp_all add: unescape_pct_byte)

lemma unreserved_table:
  "list_all (\<lambda>c. c \<noteq> CHR ''%'' \<and> (of_char c :: nat) < 128)
     (''ABCDEFGHIJKLMNOPQRSTUVWXYZabcdefghijklmnopqrstuvwxyz0123456789-_.!~*()'' @ [CHR 0x27])"
  by code_simp

lemma unreserved_ascii: "uri_unreserved c \<Longrightarrow> c \<noteq> CHR ''%'' \<and> (of_char c :: nat) < 128"
  using unreserved_table unfolding uri_unreserved_def list_all_iff by blast

lemma unescape_char:
  "unescape (encodeURIComponent_char c @ rest) = map unat (utf8_char c) @ unescape rest"
proof (cases "uri_unreserved c")
  case True
  then have "c \<noteq> CHR ''%''" "(of_char c :: nat) < 128" using unreserved_ascii by auto
  then show ?thesis using True
    by (simp add: encodeURIComponent_char_def utf8_char_def unat_of_nat)
next
  case False
  then show ?thesis by (simp add: encodeURIComponent_char_def unescape_pct_bytes)
qed

lemma unescape_encodeURIComponent:
  "unescape (encodeURIComponent s) = map unat (TextEncoder_encode s)"
proof (induction s)
  case Nil
  then show ?case by (simp add: encodeURIComponent_def TextEncoder_encode_def)
next
  case (Cons c s)
  have "unescape (encodeURIComponent (c # s)) =
      unescape (encodeURIComponent_char c @ encodeURIComponent s)"
    by (simp add: encodeURIComponent_def)
  also have "\<dots> = map unat (utf8_char c) @ unescape (encodeURIComponent s)"
    by (rule unescape_char)
  finally show ?case using Cons.IH by (simp add: TextEncoder_encode_def)
qed

lemma btoa_bytes: "btoa (map unat (bs :: bytes)) = Some (base64 bs)"
proof -
  have "list_all (\<lambda>u. u < 256) (map unat bs)"
    using unat_byte_less by (simp add: list_all_iff)
  moreover have "map of_nat (map unat bs) = bs"
    by (simp add: map_idI)
  ultimately show ?thesis by (simp add: btoa_def)
qed

lemma btoa_unescape_encodeURIComponent:
  "btoa (unescape (encodeURIComponent s)) = Some (base64 (TextEncoder_encode s))"
  by (simp add: unescape_encodeURIComponent btoa_bytes)

section \<open>The title update of a partial response\<close>

lemma ci_prefix_iff:
  "ci_prefix pat s \<longleftrightarrow> (\<exists>a r. s = a @ r \<and> toLowerCase a = toLowerCase pat)"
proof
  assume "ci_prefix pat s"
  then obtain zs where z: "map lower_char s = map lower_char pat @ zs"
    by (auto simp: ci_prefix_def toLowerCase_def prefix_def)
  have "map lower_char (take (length pat) s) = take (length pat) (map lower_char s)"
    by (simp add: take_map)
  also have "\<dots> = map lower_char pat" unfolding z by simp
  finally have "toLowerCase (take (length pat) s) = toLowerCase pat"
    by (simp add: toLowerCase_def)
  moreover have "s = take (length pat) s @ drop (length pat) s" by simp
  ultimately show "\<exists>a r. s = a @ r \<and> toLowerCase a = toLowerCase pat" by blast
next
  assume "\<exists>a r. s = a @ r \<and> toLowerCase a = toLowerCase pat"
  then show "ci_prefix pat s"
    by (auto simp: ci_prefix_def toLowerCase_def)
qed

lemma ci_prefix_drop:
  assumes "ci_prefix pat s"
  shows "toLowerCase (take (length pat) s) = toLowerCase pat"
proof -
  from assms obtain a r where s: "s = a @ r" and a: "toLowerCase a = toLowerCase pat"
    unfolding ci_prefix_iff by blast
  have "length a = length pat" using a by (metis length_map toLowerCase_def)
  then show ?thesis using s a by simp
qed

lemma title_tags:
  "toLowerCase ''<title>'' = ''<title>''" "toLowerCase ''</title>'' = ''</title>''"
  "length ''<title>'' = 7" "length ''</title>'' = 8"
  by (simp_all add: toLowerCase_def lower_char_def)

lemma title_at_sound:
  assumes "title_at s = Some t"
  shows "title_shape s t"
proof -
  define rest where "rest = drop 7 s"
  define line where "line = takeWhile (\<lambda>c. \<not> is_line_terminator c) rest"
  define ks where "ks = filter (\<lambda>k. ci_prefix ''</title>'' (drop k rest)) (rev [1..<Suc (length line)])"
  from assms have op: "ci_prefix ''<title>'' s"
    by (auto simp: title_at_def split: if_splits)
  from assms op obtain k ks' where k: "ks = k # ks'" and t: "t = take k rest"
    by (auto simp: title_at_def Let_def rest_def line_def ks_def split: list.splits)
  have "k \<in> set ks" using k by simp
  then have kr: "1 \<le> k" "k \<le> length line" and cl: "ci_prefix ''</title>'' (drop k rest)"
    by (auto simp: ks_def)
  have la: "toLowerCase (take 7 s) = ''<title>''"
    using ci_prefix_drop[OF op] unfolding title_tags by simp
  have lb: "toLowerCase (take 8 (drop k rest)) = ''</title>''"
    using ci_prefix_drop[OF cl] unfolding title_tags by simp
  have ll: "length line \<le> length rest" unfolding line_def by (rule length_takeWhile_le)
  have tl: "t = take k line"
  proof -
    have "rest = line @ dropWhile (\<lambda>c. \<not> is_line_terminator c) rest"
      unfolding line_def by simp
    then have "take k rest = take k (line @ dropWhile (\<lambda>c. \<not> is_line_terminator c) rest)"
      by simp
    also have "\<dots> = take k line" using kr(2) by simp
    finally show ?thesis using t by simp
  qed
  have nolt: "list_all (\<lambda>c. \<not> is_line_terminator c) t"
  proof -
    have "set t \<subseteq> set line" unfolding tl by (rule set_take_subset)
    moreover have "\<forall>c\<in>set line. \<not> is_line_terminator c"
      unfolding line_def by (auto dest: set_takeWhileD)
    ultimately show ?thesis by (auto simp: list_all_iff)
  qed
  have ne: "t \<noteq> []" using kr ll t by (cases rest) auto
  have "s = take 7 s @ rest" by (simp add: rest_def)
  also have "rest = t @ drop k rest" by (simp add: t)
  also have "drop k rest = take 8 (drop k rest) @ drop 8 (drop k rest)"
    by (rule append_take_drop_id[symmetric])
  finally have "s = take 7 s @ t @ take 8 (drop k rest) @ drop 8 (drop k rest)" .
  then show ?thesis unfolding title_shape_def using la lb ne nolt by blast
qed

lemma title_at_complete:
  assumes "title_shape s t"
  shows "title_at s \<noteq> None"
proof -
  from assms obtain a b ss where s: "s = a @ t @ b @ ss"
    and a: "toLowerCase a = ''<title>''" and b: "toLowerCase b = ''</title>''"
    and ne: "t \<noteq> []" and nolt: "list_all (\<lambda>c. \<not> is_line_terminator c) t"
    unfolding title_shape_def by blast
  note lt = title_tags(1,2)
  have "length (toLowerCase a) = length a" by (simp add: toLowerCase_def)
  then have la: "length a = 7" unfolding a by simp
  have op: "ci_prefix ''<title>'' s" unfolding ci_prefix_iff lt using s a by blast
  define rest where "rest = drop 7 s"
  have rest: "rest = t @ b @ ss" unfolding rest_def s using la by simp
  define line where "line = takeWhile (\<lambda>c. \<not> is_line_terminator c) rest"
  have "line = t @ takeWhile (\<lambda>c. \<not> is_line_terminator c) (b @ ss)"
    unfolding line_def rest using nolt by (simp add: takeWhile_append2 list_all_iff)
  then have len: "length t \<le> length line" by simp
  have cl: "ci_prefix ''</title>'' (drop (length t) rest)"
    unfolding ci_prefix_iff lt rest using b by auto
  have pos: "1 \<le> length t" using ne by (cases t) auto
  define ks where
    "ks = filter (\<lambda>k. ci_prefix ''</title>'' (drop k rest)) (rev [1..<Suc (length line)])"
  have "length t \<in> set ks"
    unfolding ks_def using len cl pos by (simp del: upt_Suc)
  then have ksne: "ks \<noteq> []" by auto
  have "title_at s = (case ks of [] \<Rightarrow> None | k # _ \<Rightarrow> Some (take k rest))"
    unfolding title_at_def Let_def ks_def line_def rest_def using op by (simp only: if_True)
  then show ?thesis using ksne by (cases ks) auto
qed

lemma title_match_sound:
  "title_match h = Some t \<Longrightarrow> \<exists>ps s. h = ps @ s \<and> title_shape s t"
proof (induction h)
  case Nil
  then show ?case by simp
next
  case (Cons c cs)
  show ?case
  proof (cases "title_at (c # cs)")
    case None
    with Cons.prems have "title_match cs = Some t" by simp
    from Cons.IH[OF this] obtain ps s where "cs = ps @ s" "title_shape s t" by blast
    then have "c # cs = (c # ps) @ s" by simp
    then show ?thesis using \<open>title_shape s t\<close> by blast
  next
    case (Some t')
    with Cons.prems have "t' = t" by simp
    then have "title_shape (c # cs) t" using Some title_at_sound by blast
    then show ?thesis by (metis append_Nil)
  qed
qed

lemma title_match_complete:
  "h = ps @ s \<Longrightarrow> title_shape s t \<Longrightarrow> title_match h \<noteq> None"
proof (induction ps arbitrary: h)
  case Nil
  then have "title_at h \<noteq> None" using title_at_complete by simp
  moreover have "h \<noteq> []" using Nil by (auto simp: title_shape_def)
  ultimately show ?case by (cases h) (auto split: option.splits)
next
  case (Cons p ps)
  then have "title_match (ps @ s) \<noteq> None" by blast
  then show ?case using Cons.prems(1) by (auto split: option.splits)
qed

text \<open>
  The match of the pattern in plain terms: it succeeds exactly when some suffix of the
  head has the shape above, and the text it returns is the group of such a suffix.
\<close>

lemma title_match_iff:
  "title_match h \<noteq> None \<longleftrightarrow> (\<exists>ps s t. h = ps @ s \<and> title_shape s t)"
  using title_match_sound title_match_complete by (metis not_Some_eq)

lemma title_match_nonempty: "title_match h = Some t \<Longrightarrow> h \<noteq> []"
  by (cases h) auto

lemma lower_xhu: "toLowerCase ''X-Header-Updates'' = ''x-header-updates''"
  by (simp add: toLowerCase_def lower_char_def)

lemma title_update_partial:
  assumes "title_match h = Some t"
  shows "title_update None (Some h) hs =
     Some (headers_set hs ''X-Header-Updates'' (base64 (TextEncoder_encode (JSON_stringify_title t))))"
  using assms title_match_nonempty[OF assms]
  by (simp add: title_update_def truthy_def btoa_unescape_encodeURIComponent)

lemma finalize_keeps:
  assumes "toLowerCase name \<notin> {''etag'', ''cache-control'', ''content-encoding'', ''content-length''}"
  shows "response_header (finalize env config req pr) name = headers_get (pr_headers pr) name"
  using assms
  by (simp add: finalize_def Let_def response_header_def headers_get_set lower_names)

text \<open>
  Claim C6, as the code has it. In partial mode, when the head returned by the handler
  matches the title pattern, that is when it has, in either letter case, \<open><title>\<close>
  followed on the same line by at least one character and then \<open></title>\<close>, the page
  response and the finished response carry an \<open>X-Header-Updates\<close> header whose value is
  the base64 text of the UTF-8 bytes of the JSON object with the one member \<open>title\<close>,
  the text matched by the group. For the head \<open><title>Home</title>\<close> the value decodes
  to the JSON text with the title \<open>Home\<close>.
\<close>

theorem title_header_update:
  assumes partial: "truthy (headers_get (req_headers req) ''x-partial-content'')
                    \<or> truthy (searchParams_get u ''partialContent'')"
    and data: "handler page req (routeParams (pathname u) (route page)) = HandlerReturns (Some pd)"
    and head: "pd_head pd = Some h"
    and title: "title_match h = Some t"
  shows "\<exists>sent pr. proxy req u page = (sent, Inr pr) \<and>
           headers_get (pr_headers pr) ''X-Header-Updates'' =
             Some (base64 (TextEncoder_encode (JSON_stringify_title t))) \<and>
           response_header (finalize env config req pr) ''X-Header-Updates'' =
             Some (base64 (TextEncoder_encode (JSON_stringify_title t)))"
proof -
  define hs where
    "hs = headers_set (new_Headers (pd_headers pd)) ''Content-Type'' ''text/html''"
  define v where "v = base64 (TextEncoder_encode (JSON_stringify_title t))"
  have pre: "generatePreContent (template page) True = None"
    by (simp add: generatePreContent_def)
  have upd: "title_update None (pd_head pd) hs = Some (headers_set hs ''X-Header-Updates'' v)"
    unfolding head v_def by (rule title_update_partial[OF title])
  obtain sent pr where p: "proxy req u page = (sent, Inr pr)"
    and h: "pr_headers pr = headers_set hs ''X-Header-Updates'' v"
    using partial data pre upd
    by (auto simp: proxy_def Let_def hs_def)
  have g: "headers_get (pr_headers pr) ''X-Header-Updates'' = Some v"
    unfolding h by (simp add: headers_get_set)
  have "toLowerCase ''X-Header-Updates'' \<notin>
      {''etag'', ''cache-control'', ''content-encoding'', ''content-length''}"
    unfolding lower_xhu by simp
  from finalize_keeps[OF this, of env config req pr] g
  have f: "response_header (finalize env config req pr) ''X-Header-Updates'' = Some v" by simp
  show ?thesis using p g f unfolding v_def by blast
qed

theorem title_header_update_witness:
  "\<exists>sent pr.
     proxy (request_of ''/x'' [(''x-partial-content'', ''1'')])
           \<lparr>pathname = ''/x'', searchParams = []\<rparr>
           (page_of ''/x'' ''<html><nattramn-router></nattramn-router></html>''
              (Some ''<title>Home</title>'') ''<p>hi</p>'') = (sent, Inr pr) \<and>
     headers_get (pr_headers pr) ''X-Header-Updates'' = Some ''eyJ0aXRsZSI6IkhvbWUifQ=='' \<and>
     base64_decode ''eyJ0aXRsZSI6IkhvbWUifQ=='' =
       Some (TextEncoder_encode
               ([CHR ''{'', CHR 0x22] @ ''title'' @ [CHR 0x22, CHR '':'', CHR 0x22] @ ''Home''
                @ [CHR 0x22, CHR ''}'']))"
proof -
  let ?req = "request_of ''/x'' [(''x-partial-content'', ''1'')]"
  let ?u = "\<lparr>pathname = ''/x'', searchParams = []\<rparr>"
  let ?pd = "\<lparr>pd_head = Some ''<title>Home</title>'', pd_body = ''<p>hi</p>'', pd_headers = None\<rparr>"
  let ?page = "page_of ''/x'' ''<html><nattramn-router></nattramn-router></html>''
              (Some ''<title>Home</title>'') ''<p>hi</p>''"
  have partial: "truthy (headers_get (req_headers ?req) ''x-partial-content'')
                    \<or> truthy (searchParams_get ?u ''partialContent'')"
    by code_simp
  have data: "handler ?page ?req (routeParams (pathname ?u) (route ?page)) = HandlerReturns (Some ?pd)"
    by (simp add: page_of_def)
  have head: "pd_head ?pd = Some ''<title>Home</title>''" by simp
  have title: "title_match ''<title>Home</title>'' = Some ''Home''" by code_simp
  have v: "base64 (TextEncoder_encode (JSON_stringify_title ''Home'')) = ''eyJ0aXRsZSI6IkhvbWUifQ==''"
    by code_simp
  have d: "base64_decode ''eyJ0aXRsZSI6IkhvbWUifQ=='' =
       Some (TextEncoder_encode
               ([CHR ''{'', CHR 0x22] @ ''title'' @ [CHR 0x22, CHR '':'', CHR 0x22] @ ''Home''
                @ [CHR 0x22, CHR ''}'']))"
    by code_simp
  from title_header_update[OF partial data head title, of example_env "config_of None None []"]
  show ?thesis unfolding v using d by blast
qed


text \<open>
  The claim as stated fails in two ways. A head whose title tag spans several lines
  contains a title tag, yet no \<open>X-Header-Updates\<close> header is set. A head that contains
  \<open><title>Home</title>\<close> followed by a second title tag gives a header for the title
  \<open>Home</title><title>News\<close>, not for \<open>Home\<close>.
\<close>

theorem title_header_update_counterexample:
  "sublist ''<title>'' (''<title>'' @ [CHR 0x0A] @ ''Home'' @ [CHR 0x0A] @ ''</title>'') \<and>
   sublist ''</title>'' (''<title>'' @ [CHR 0x0A] @ ''Home'' @ [CHR 0x0A] @ ''</title>'') \<and>
   proxy (request_of ''/x'' [(''x-partial-content'', ''1'')])
         \<lparr>pathname = ''/x'', searchParams = []\<rparr>
         (page_of ''/x'' ''<html><nattramn-router></nattramn-router></html>''
            (Some (''<title>'' @ [CHR 0x0A] @ ''Home'' @ [CHR 0x0A] @ ''</title>'')) ''<p>hi</p>'')
     = ([], Inr \<lparr>pr_status = 200, pr_body = TextEncoder_encode ''<p>hi</p>'',
                  pr_headers = [(''content-type'', ''text/html'')]\<rparr>) \<and>
   sublist ''<title>Home</title>'' ''<title>Home</title><title>News</title>'' \<and>
   proxy (request_of ''/x'' [(''x-partial-content'', ''1'')])
         \<lparr>pathname = ''/x'', searchParams = []\<rparr>
         (page_of ''/x'' ''<html><nattramn-router></nattramn-router></html>''
            (Some ''<title>Home</title><title>News</title>'') ''<p>hi</p>'')
     = ([], Inr \<lparr>pr_status = 200, pr_body = TextEncoder_encode ''<p>hi</p>'',
                  pr_headers = [(''x-header-updates'',
                                 base64 (TextEncoder_encode
                                   (JSON_stringify_title ''Home</title><title>News''))),
                                (''content-type'', ''text/html'')]\<rparr>) \<and>
   base64 (TextEncoder_encode (JSON_stringify_title ''Home</title><title>News'')) \<noteq>
   base64 (TextEncoder_encode (JSON_stringify_title ''Home''))"
  unfolding str_includes_sublist[symmetric] by code_simp

end
